theory Spec2Isabelle
  imports Main "HOL-Library.Word"
begin

section \<open>A write-ahead log with segment rotation (main.go)\<close>

text \<open>
  The development embeds \<^verbatim>\<open>main.go\<close>: the segment namer with its process-wide cache,
  the segment locator, the engine (\<^verbatim>\<open>newWriteAheadLOG\<close>, \<^verbatim>\<open>FlushE\<close>,
  \<^verbatim>\<open>rotateSegment\<close>, \<^verbatim>\<open>WriteLog\<close>) and the HTTP handler. The operating system is an
  explicit \<open>world\<close> value passed through every call: a file tree, a script of injected
  system-call failures, the list of system calls made so far, and the global name cache.
  Go's \<^verbatim>\<open>int\<close> and \<^verbatim>\<open>int64\<close> are 64-bit two's-complement words (a 64-bit platform), so
  \<open>+ 1\<close> wraps exactly as the compiled program does. The mutex is not modelled: calls are
  taken one after the other, which is what the lock enforces.
\<close>

subsection \<open>Constants\<close>

type_synonym go_int = "64 word"

definition segmentPrefix :: string where
  "segmentPrefix = ''wal_''"

definition maxSegmentSize :: nat where
  "maxSegmentSize = 500"

definition walDir :: string where
  "walDir = ''wal_data''"

definition bufferSize :: nat where
  "bufferSize = 4096"

subsection \<open>Library functions: fmt, strings, strconv, path/filepath\<close>

text \<open>\<^verbatim>\<open>%d\<close>: decimal digits, most significant first, a minus sign for a negative value.\<close>

fun showNat :: "nat \<Rightarrow> string" where
  "showNat n =
     (if n < 10 then [''0123456789'' ! n]
      else showNat (n div 10) @ [''0123456789'' ! (n mod 10)])"

declare showNat.simps [simp del]

definition showInt :: "int \<Rightarrow> string" where
  "showInt i = (if i < 0 then CHR ''-'' # showNat (nat (- i)) else showNat (nat i))"

definition fmt_d :: "go_int \<Rightarrow> string" where
  "fmt_d i = showInt (sint i)"

definition HasPrefix :: "string \<Rightarrow> string \<Rightarrow> bool" where
  "HasPrefix s p = (take (length p) s = p)"

definition TrimPrefix :: "string \<Rightarrow> string \<Rightarrow> string" where
  "TrimPrefix s p = (if HasPrefix s p then drop (length p) s else s)"

definition HasSuffix :: "string \<Rightarrow> string \<Rightarrow> bool" where
  "HasSuffix s x = (length x \<le> length s \<and> drop (length s - length x) s = x)"

definition TrimSuffix :: "string \<Rightarrow> string \<Rightarrow> string" where
  "TrimSuffix s x = (if HasSuffix s x then take (length s - length x) s else s)"

text \<open>
  \<^verbatim>\<open>strconv.Atoi\<close>: an optional sign, then one or more decimal digits and nothing else;
  a value outside the 64-bit range is an error.
\<close>

definition isDigit :: "char \<Rightarrow> bool" where
  "isDigit c = (48 \<le> (of_char c :: nat) \<and> (of_char c :: nat) \<le> 57)"

definition digitVal :: "char \<Rightarrow> nat" where
  "digitVal c = of_char c - 48"

definition parseDigits :: "string \<Rightarrow> nat option" where
  "parseDigits s =
     (if s \<noteq> [] \<and> list_all isDigit s
      then Some (foldl (\<lambda>n ch. n * 10 + digitVal ch) 0 s) else None)"

definition Atoi :: "string \<Rightarrow> go_int option" where
  "Atoi s =
     (case s of
        [] \<Rightarrow> None
      | c # rest \<Rightarrow>
          if c = CHR ''-'' then
            (case parseDigits rest of
               None \<Rightarrow> None
             | Some n \<Rightarrow> if n \<le> 2 ^ 63 then Some (word_of_int (- int n)) else None)
          else
            (case parseDigits (if c = CHR ''+'' then rest else s) of
               None \<Rightarrow> None
             | Some n \<Rightarrow> if n < 2 ^ 63 then Some (word_of_nat n) else None))"

text \<open>
  \<^verbatim>\<open>filepath.Join\<close> on a Unix path: the non-empty elements are joined with a slash and
  the result is cleaned (\<^verbatim>\<open>filepath.Clean\<close>): empty and \<^verbatim>\<open>.\<close> components are dropped,
  \<^verbatim>\<open>..\<close> removes the component before it, and \<^verbatim>\<open>..\<close> at the root is dropped.
\<close>

fun splitSlash :: "string \<Rightarrow> string list" where
  "splitSlash [] = [[]]"
| "splitSlash (c # cs) =
     (if c = CHR ''/'' then [] # splitSlash cs
      else (case splitSlash cs of [] \<Rightarrow> [[c]] | x # xs \<Rightarrow> (c # x) # xs))"

fun joinSlash :: "string list \<Rightarrow> string" where
  "joinSlash [] = []"
| "joinSlash [x] = x"
| "joinSlash (x # y # ys) = x @ CHR ''/'' # joinSlash (y # ys)"

definition cleanStep :: "bool \<Rightarrow> string list \<Rightarrow> string \<Rightarrow> string list" where
  "cleanStep rooted stack el =
     (if el = [] \<or> el = ''.'' then stack
      else if el = ''..'' then
        (case stack of
           [] \<Rightarrow> if rooted then [] else [''..'']
         | t # ts \<Rightarrow> if t = ''..'' then ''..'' # t # ts else ts)
      else el # stack)"

definition Clean :: "string \<Rightarrow> string" where
  "Clean path =
     (if path = [] then ''.''
      else
        let rooted = (hd path = CHR ''/'');
            body = joinSlash (rev (foldl (cleanStep rooted) [] (splitSlash path)))
        in if rooted then CHR ''/'' # body
           else if body = [] then ''.'' else body)"

definition Join :: "string \<Rightarrow> string \<Rightarrow> string" where
  "Join a b =
     (if a \<noteq> [] then Clean (a @ CHR ''/'' # b)
      else if b \<noteq> [] then Clean b
      else [])"

subsection \<open>The operating system\<close>

text \<open>
  A file has the bytes written to it and the bytes that have reached the disk; \<open>Sync\<close>
  makes the second equal to the first. The tree is an association list from path to node,
  looked up with \<open>map_of\<close>. Each system call first records itself in \<open>calls\<close>, then takes
  the next entry of \<open>faults\<close>: \<open>True\<close> makes the call fail, and an exhausted script means
  success. \<open>os_ReadDir\<close> lists the entries of a directory in the order of the tree;
  \<^verbatim>\<open>os.ReadDir\<close> sorts them by name, which the locator, taking a maximum, does not
  depend on.
\<close>

datatype node = Dir | File (written: string) (synced: string)

datatype call =
    CallMkdirAll string
  | CallReadDir string
  | CallOpenFile string
  | CallStat string
  | CallWrite string string
  | CallSync string
  | CallClose string

datatype error =
    IOFailure
  | ErrClosed
  | NotExist
  | IsDirectory
  | NotDirectory
  | UnsupportedValue
  | InvalidJSON
  | Errorf string error

record world =
  fs :: "(string \<times> node) list"
  faults :: "bool list"
  calls :: "call list"
  segmentNameCache :: "string \<rightharpoonup> string"

datatype DirEntry = DirEntry (Name: string) (IsDir: bool)

record os_File =
  fname :: string
  closed :: bool

definition syscall :: "call \<Rightarrow> world \<Rightarrow> bool \<times> world" where
  "syscall c wd =
     (case faults wd of
        [] \<Rightarrow> (False, wd\<lparr>calls := calls wd @ [c]\<rparr>)
      | b # bs \<Rightarrow> (b, wd\<lparr>faults := bs, calls := calls wd @ [c]\<rparr>))"

fun putNode :: "string \<Rightarrow> node \<Rightarrow> (string \<times> node) list \<Rightarrow> (string \<times> node) list" where
  "putNode p n [] = [(p, n)]"
| "putNode p n ((q, m) # rest) = (if q = p then (p, n) # rest else (q, m) # putNode p n rest)"

definition isChild :: "string \<Rightarrow> string \<Rightarrow> bool" where
  "isChild d p =
     (take (length d + 1) p = d @ ''/'' \<and> length d + 1 < length p
      \<and> CHR ''/'' \<notin> set (drop (length d + 1) p))"

definition children :: "string \<Rightarrow> (string \<times> node) list \<Rightarrow> DirEntry list" where
  "children d t =
     [DirEntry (drop (length d + 1) p) (n = Dir). (p, n) \<leftarrow> t, isChild d p \<and> map_of t p = Some n]"

definition parentDir :: "string \<Rightarrow> string" where
  "parentDir p = joinSlash (butlast (splitSlash p))"

definition os_ReadDir :: "string \<Rightarrow> world \<Rightarrow> (error + DirEntry list) \<times> world" where
  "os_ReadDir d wd =
     (case syscall (CallReadDir d) wd of
        (True, wd1) \<Rightarrow> (Inl IOFailure, wd1)
      | (False, wd1) \<Rightarrow>
          (case map_of (fs wd1) d of
             None \<Rightarrow> (Inl NotExist, wd1)
           | Some (File c s) \<Rightarrow> (Inl NotDirectory, wd1)
           | Some Dir \<Rightarrow> (Inr (children d (fs wd1)), wd1)))"

subsection \<open>segmentFileName\<close>

definition segmentFileName :: "string \<Rightarrow> go_int \<Rightarrow> world \<Rightarrow> string \<times> world" where
  "segmentFileName directory index wd =
     (let key = directory @ '':'' @ fmt_d index
      in case segmentNameCache wd key of
           Some name \<Rightarrow> (name, wd)
         | None \<Rightarrow>
             let name = Join directory (segmentPrefix @ fmt_d index @ ''.log'')
             in (name, wd\<lparr>segmentNameCache := (segmentNameCache wd)(key \<mapsto> name)\<rparr>))"

text \<open>The path the namer computes when the cache has no entry for the pair.\<close>

definition segmentPath :: "string \<Rightarrow> go_int \<Rightarrow> string" where
  "segmentPath directory index = Join directory (segmentPrefix @ fmt_d index @ ''.log'')"

text \<open>A run of calls against the one cache, in order, each seeing what the earlier ones stored.\<close>

fun segmentFileNames :: "(string \<times> go_int) list \<Rightarrow> world \<Rightarrow> string list \<times> world" where
  "segmentFileNames [] wd = ([], wd)"
| "segmentFileNames ((d, i) # rest) wd =
     (case segmentFileName d i wd of
        (name, wd1) \<Rightarrow> (case segmentFileNames rest wd1 of (names, wd2) \<Rightarrow> (name # names, wd2)))"

subsection \<open>findLastSegemtIndex\<close>

text \<open>
  The index one directory entry contributes in the loop of \<^verbatim>\<open>findLastSegemtIndex\<close>:
  none for a subdirectory or a name without the prefix; otherwise what \<^verbatim>\<open>Atoi\<close> makes of
  the name with the prefix and a trailing \<^verbatim>\<open>.log\<close> removed.
\<close>

definition entryIndex :: "DirEntry \<Rightarrow> go_int option" where
  "entryIndex entry =
     (if IsDir entry \<or> \<not> HasPrefix (Name entry) segmentPrefix then None
      else Atoi (TrimSuffix (TrimPrefix (Name entry) segmentPrefix) ''.log''))"

fun scanEntries :: "DirEntry list \<Rightarrow> go_int \<Rightarrow> go_int" where
  "scanEntries [] maxIndex = maxIndex"
| "scanEntries (entry # entries) maxIndex =
     (case entryIndex entry of
        None \<Rightarrow> scanEntries entries maxIndex
      | Some index \<Rightarrow>
          if maxIndex <s index then scanEntries entries index
          else scanEntries entries maxIndex)"

definition findLastSegemtIndex :: "string \<Rightarrow> world \<Rightarrow> (go_int \<times> error option) \<times> world" where
  "findLastSegemtIndex directory wd =
     (case os_ReadDir directory wd of
        (Inl err, wd1) \<Rightarrow> ((1, None), wd1)
      | (Inr entries, wd1) \<Rightarrow>
          let maxIndex = scanEntries entries 0
          in if maxIndex = 0 then ((1, None), wd1) else ((maxIndex, None), wd1))"

subsection \<open>Files: os.MkdirAll, os.OpenFile and the methods of os.File\<close>

text \<open>
  \<open>os_MkdirAll\<close> creates the directory itself: \<open>walDir\<close> has one component, so there is
  no parent to create. \<open>os_OpenFile\<close> is the call with
  \<^verbatim>\<open>O_CREATE|O_RDWR|O_APPEND\<close>: an existing file is opened as it is, a missing one is created
  empty when its parent directory exists, and every write lands at the end. A handle
  remembers its path and whether it was closed; a method on a closed handle fails without
  a system call.
\<close>

definition os_MkdirAll :: "string \<Rightarrow> world \<Rightarrow> error option \<times> world" where
  "os_MkdirAll p wd =
     (case syscall (CallMkdirAll p) wd of
        (True, wd1) \<Rightarrow> (Some IOFailure, wd1)
      | (False, wd1) \<Rightarrow>
          (case map_of (fs wd1) p of
             Some Dir \<Rightarrow> (None, wd1)
           | Some (File c s) \<Rightarrow> (Some NotDirectory, wd1)
           | None \<Rightarrow> (None, wd1\<lparr>fs := putNode p Dir (fs wd1)\<rparr>)))"

definition os_OpenFile :: "string \<Rightarrow> world \<Rightarrow> (error + os_File) \<times> world" where
  "os_OpenFile p wd =
     (case syscall (CallOpenFile p) wd of
        (True, wd1) \<Rightarrow> (Inl IOFailure, wd1)
      | (False, wd1) \<Rightarrow>
          (case map_of (fs wd1) p of
             Some Dir \<Rightarrow> (Inl IsDirectory, wd1)
           | Some (File c s) \<Rightarrow> (Inr \<lparr>fname = p, closed = False\<rparr>, wd1)
           | None \<Rightarrow>
               if parentDir p = [] \<or> map_of (fs wd1) (parentDir p) = Some Dir
               then (Inr \<lparr>fname = p, closed = False\<rparr>, wd1\<lparr>fs := putNode p (File [] []) (fs wd1)\<rparr>)
               else (Inl NotExist, wd1)))"

definition file_Stat :: "os_File \<Rightarrow> world \<Rightarrow> (error + nat) \<times> world" where
  "file_Stat f wd =
     (if closed f then (Inl ErrClosed, wd)
      else case syscall (CallStat (fname f)) wd of
             (True, wd1) \<Rightarrow> (Inl IOFailure, wd1)
           | (False, wd1) \<Rightarrow>
               (case map_of (fs wd1) (fname f) of
                  Some (File c s) \<Rightarrow> (Inr (length c), wd1)
                | Some Dir \<Rightarrow> (Inl IsDirectory, wd1)
                | None \<Rightarrow> (Inl NotExist, wd1)))"

definition file_Write :: "os_File \<Rightarrow> string \<Rightarrow> world \<Rightarrow> error option \<times> world" where
  "file_Write f p wd =
     (if closed f then (Some ErrClosed, wd)
      else case syscall (CallWrite (fname f) p) wd of
             (True, wd1) \<Rightarrow> (Some IOFailure, wd1)
           | (False, wd1) \<Rightarrow>
               (case map_of (fs wd1) (fname f) of
                  Some (File c s) \<Rightarrow> (None, wd1\<lparr>fs := putNode (fname f) (File (c @ p) s) (fs wd1)\<rparr>)
                | Some Dir \<Rightarrow> (Some IsDirectory, wd1)
                | None \<Rightarrow> (Some NotExist, wd1)))"

definition file_Sync :: "os_File \<Rightarrow> world \<Rightarrow> error option \<times> world" where
  "file_Sync f wd =
     (if closed f then (Some ErrClosed, wd)
      else case syscall (CallSync (fname f)) wd of
             (True, wd1) \<Rightarrow> (Some IOFailure, wd1)
           | (False, wd1) \<Rightarrow>
               (case map_of (fs wd1) (fname f) of
                  Some (File c s) \<Rightarrow> (None, wd1\<lparr>fs := putNode (fname f) (File c c) (fs wd1)\<rparr>)
                | Some Dir \<Rightarrow> (Some IsDirectory, wd1)
                | None \<Rightarrow> (Some NotExist, wd1)))"

text \<open>\<open>Close\<close> releases the descriptor even when the system call reports an error.\<close>

definition file_Close :: "os_File \<Rightarrow> world \<Rightarrow> error option \<times> os_File \<times> world" where
  "file_Close f wd =
     (if closed f then (Some ErrClosed, f, wd)
      else case syscall (CallClose (fname f)) wd of
             (True, wd1) \<Rightarrow> (Some IOFailure, f\<lparr>closed := True\<rparr>, wd1)
           | (False, wd1) \<Rightarrow> (None, f\<lparr>closed := True\<rparr>, wd1))"

subsection \<open>bufio.Writer\<close>

text \<open>
  A writer of \<open>bufferSize\<close> bytes over a file. Its error is sticky: after a failed write
  to the file every later \<open>Write\<close> and \<open>Flush\<close> returns that error. \<open>Write\<close> copies into the
  buffer while the data fits; data larger than the free space is written straight to the
  file when the buffer is empty, and otherwise fills the buffer, flushes it and goes on
  with the rest. A failed write to the file writes nothing.
\<close>

record bufio_Writer =
  buf :: string
  werr :: "error option"

definition NewWriterSize :: bufio_Writer where
  "NewWriterSize = \<lparr>buf = [], werr = None\<rparr>"

definition bufio_Flush :: "bufio_Writer \<Rightarrow> os_File \<Rightarrow> world \<Rightarrow> error option \<times> bufio_Writer \<times> world" where
  "bufio_Flush b f wd =
     (case werr b of
        Some e \<Rightarrow> (Some e, b, wd)
      | None \<Rightarrow>
          if buf b = [] then (None, b, wd)
          else case file_Write f (buf b) wd of
                 (Some e, wd1) \<Rightarrow> (Some e, b\<lparr>werr := Some e\<rparr>, wd1)
               | (None, wd1) \<Rightarrow> (None, b\<lparr>buf := []\<rparr>, wd1))"

definition directWrite :: "bufio_Writer \<Rightarrow> os_File \<Rightarrow> string \<Rightarrow> world \<Rightarrow> error option \<times> bufio_Writer \<times> world" where
  "directWrite b f p wd =
     (case file_Write f p wd of
        (Some e, wd1) \<Rightarrow> (Some e, b\<lparr>werr := Some e\<rparr>, wd1)
      | (None, wd1) \<Rightarrow> (None, b, wd1))"

definition bufio_Write :: "bufio_Writer \<Rightarrow> os_File \<Rightarrow> string \<Rightarrow> world \<Rightarrow> error option \<times> bufio_Writer \<times> world" where
  "bufio_Write b f p wd =
     (case werr b of
        Some e \<Rightarrow> (Some e, b, wd)
      | None \<Rightarrow>
          if length p \<le> bufferSize - length (buf b) then (None, b\<lparr>buf := buf b @ p\<rparr>, wd)
          else if buf b = [] then directWrite b f p wd
          else
            let n = bufferSize - length (buf b)
            in case bufio_Flush (b\<lparr>buf := buf b @ take n p\<rparr>) f wd of
                 (Some e, b1, wd1) \<Rightarrow> (Some e, b1, wd1)
               | (None, b1, wd1) \<Rightarrow>
                   if length (drop n p) \<le> bufferSize then (None, b1\<lparr>buf := drop n p\<rparr>, wd1)
                   else directWrite b1 f (drop n p) wd1)"

subsection \<open>Log entries and their encoding\<close>

text \<open>
  The engine never looks into a payload; it only hands it to the encoder. A payload is
  therefore the nil map, a map given by the JSON text \<^verbatim>\<open>json.Marshal\<close> produces for it, or a
  Go value that \<^verbatim>\<open>encoding/json\<close> cannot encode (\<open>WriteLog\<close> takes any \<^verbatim>\<open>interface{}\<close>).
  A record is the entry's three fields in the order of the struct, then a newline.
  \<open>jsonString\<close> quotes a topic with the escapes of \<^verbatim>\<open>encoding/json\<close> for ASCII text.
\<close>

datatype payload = NilMap | MapValue string | Unencodable

record LogEntry =
  Offset :: go_int
  Topic :: string
  Payload :: payload

definition marshalPayload :: "payload \<Rightarrow> string option" where
  "marshalPayload p =
     (case p of NilMap \<Rightarrow> Some ''null'' | MapValue s \<Rightarrow> Some s | Unencodable \<Rightarrow> None)"

definition hexDigit :: "nat \<Rightarrow> char" where
  "hexDigit n = ''0123456789abcdef'' ! (n mod 16)"

definition escapeChar :: "char \<Rightarrow> string" where
  \<open>escapeChar c =
     (if c = CHR ''"'' then [CHR 0x5C, CHR ''"'']
      else if c = CHR 0x5C then [CHR 0x5C, CHR 0x5C]
      else if c = CHR 0x0A then [CHR 0x5C, CHR ''n'']
      else if c = CHR 0x0D then [CHR 0x5C, CHR ''r'']
      else if c = CHR 0x09 then [CHR 0x5C, CHR ''t'']
      else if (of_char c :: nat) < 32 \<or> c = CHR ''<'' \<or> c = CHR ''>'' \<or> c = CHR ''&''
        then [CHR 0x5C, CHR ''u'', CHR ''0'', CHR ''0'',
              hexDigit (of_char c div 16), hexDigit (of_char c)]
      else [c])\<close>

definition jsonString :: "string \<Rightarrow> string" where
  \<open>jsonString s = CHR ''"'' # concat (map escapeChar s) @ [CHR ''"'']\<close>

definition marshalEntry :: "LogEntry \<Rightarrow> string option" where
  \<open>marshalEntry entry =
     (case marshalPayload (Payload entry) of
        None \<Rightarrow> None
      | Some p \<Rightarrow>
          Some (''{"offset":'' @ fmt_d (Offset entry) @ '',"topic":'' @ jsonString (Topic entry)
                @ '',"payload":'' @ p @ ''}'' @ [CHR 0x0A]))\<close>

subsection \<open>The engine\<close>

text \<open>
  \<open>writer\<close> always wraps \<open>currentSegment\<close> and the encoder always wraps \<open>writer\<close>: the source
  sets the three together, in \<open>newWriteAheadLOG\<close> and in \<open>rotateSegment\<close>, and nowhere else.
  The model therefore keeps the file handle once, in \<open>currentSegment\<close>, and of the encoder
  only its sticky error.
\<close>

record WAL =
  directory :: string
  currentSegment :: os_File
  writer :: bufio_Writer
  currentSegmentIndex :: go_int
  offset :: go_int
  encoderErr :: "error option"

definition calculateOffset :: "os_File \<Rightarrow> world \<Rightarrow> (error + go_int) \<times> world" where
  "calculateOffset f wd =
     (case file_Stat f wd of
        (Inl err, wd1) \<Rightarrow> (Inl err, wd1)
      | (Inr sz, wd1) \<Rightarrow> (Inr (word_of_nat sz), wd1))"

definition newWriteAheadLOG :: "world \<Rightarrow> (error + WAL) \<times> world" where
  "newWriteAheadLOG wd =
     (case os_MkdirAll walDir wd of
        (Some err, wd1) \<Rightarrow> (Inl (Errorf ''failed to create wal directory'' err), wd1)
      | (None, wd1) \<Rightarrow>
     (case findLastSegemtIndex walDir wd1 of
        ((segementIndex, Some err), wd2) \<Rightarrow>
          (Inl (Errorf ''failed to find last segment index'' err), wd2)
      | ((segementIndex, None), wd2) \<Rightarrow>
     (case segmentFileName walDir segementIndex wd2 of
        (path, wd3) \<Rightarrow>
     (case os_OpenFile path wd3 of
        (Inl err, wd4) \<Rightarrow> (Inl (Errorf ''failed to open segment file'' err), wd4)
      | (Inr f, wd4) \<Rightarrow>
     (case calculateOffset f wd4 of
        (Inl err, wd5) \<Rightarrow>
          (case file_Close f wd5 of
             (cerr, f1, wd6) \<Rightarrow> (Inl (Errorf ''failed to calculate offset'' err), wd6))
      | (Inr off, wd5) \<Rightarrow>
          (Inr \<lparr>directory = walDir, currentSegment = f, writer = NewWriterSize,
                currentSegmentIndex = segementIndex, offset = 1 + off,
                encoderErr = None\<rparr>, wd5))))))"

text \<open>
  \<^verbatim>\<open>json.Encoder.Encode\<close>: a sticky error from an earlier failed write is returned at once;
  a value that cannot be marshalled is an error and writes nothing; otherwise the record
  goes to the buffered writer, and a failure there becomes the encoder's sticky error.
\<close>

definition Encode :: "LogEntry \<Rightarrow> WAL \<Rightarrow> world \<Rightarrow> error option \<times> WAL \<times> world" where
  "Encode entry w wd =
     (case encoderErr w of
        Some e \<Rightarrow> (Some e, w, wd)
      | None \<Rightarrow>
          (case marshalEntry entry of
             None \<Rightarrow> (Some UnsupportedValue, w, wd)
           | Some line \<Rightarrow>
               (case bufio_Write (writer w) (currentSegment w) line wd of
                  (Some e, b, wd1) \<Rightarrow> (Some e, w\<lparr>writer := b, encoderErr := Some e\<rparr>, wd1)
                | (None, b, wd1) \<Rightarrow> (None, w\<lparr>writer := b\<rparr>, wd1))))"

definition FlushE :: "WAL \<Rightarrow> world \<Rightarrow> error option \<times> WAL \<times> world" where
  "FlushE w wd =
     (case bufio_Flush (writer w) (currentSegment w) wd of
        (Some err, b, wd1) \<Rightarrow> (Some (Errorf ''failed to flush writer'' err), w\<lparr>writer := b\<rparr>, wd1)
      | (None, b, wd1) \<Rightarrow>
          (case file_Sync (currentSegment w) wd1 of
             (Some err, wd2) \<Rightarrow>
               (Some (Errorf ''failed to sync segment file'' err), w\<lparr>writer := b\<rparr>, wd2)
           | (None, wd2) \<Rightarrow> (None, w\<lparr>writer := b\<rparr>, wd2)))"

definition rotateSegment :: "WAL \<Rightarrow> world \<Rightarrow> error option \<times> WAL \<times> world" where
  "rotateSegment w wd =
     (case FlushE w wd of
        (Some err, w1, wd1) \<Rightarrow> (Some err, w1, wd1)
      | (None, w1, wd1) \<Rightarrow>
     (case file_Close (currentSegment w1) wd1 of
        (Some err, f, wd2) \<Rightarrow> (Some err, w1\<lparr>currentSegment := f\<rparr>, wd2)
      | (None, f, wd2) \<Rightarrow>
          let w2 = w1\<lparr>currentSegment := f, currentSegmentIndex := currentSegmentIndex w1 + 1\<rparr>
          in
     (case segmentFileName (directory w2) (currentSegmentIndex w2) wd2 of
        (path, wd3) \<Rightarrow>
     (case os_OpenFile path wd3 of
        (Inl err, wd4) \<Rightarrow> (Some (Errorf ''failed to open new segment file'' err), w2, wd4)
      | (Inr f', wd4) \<Rightarrow>
          (None, w2\<lparr>currentSegment := f', writer := NewWriterSize, encoderErr := None,
                     offset := offset w2 + 1\<rparr>, wd4)))))"

definition WriteLog :: "string \<Rightarrow> payload \<Rightarrow> WAL \<Rightarrow> world \<Rightarrow> error option \<times> WAL \<times> world" where
  "WriteLog topic payload w wd =
     (let entry = \<lparr>Offset = offset w, Topic = topic, Payload = payload\<rparr>
      in
     (case Encode entry w wd of
        (Some err, w1, wd1) \<Rightarrow> (Some (Errorf ''failed to encode log entry'' err), w1, wd1)
      | (None, w1, wd1) \<Rightarrow>
     (case FlushE w1 wd1 of
        (Some err, w2, wd2) \<Rightarrow> (Some (Errorf ''failed to flush log entry'' err), w2, wd2)
      | (None, w2, wd2) \<Rightarrow>
     (case file_Stat (currentSegment w2) wd2 of
        (Inl err, wd3) \<Rightarrow> (Some (Errorf ''failed to get file info'' err), w2, wd3)
      | (Inr currentFileSize, wd3) \<Rightarrow>
          let w3 = w2\<lparr>offset := offset w2 + 1\<rparr>
          in if maxSegmentSize \<le> currentFileSize then
               (case rotateSegment w3 wd3 of
                  (Some err, w4, wd4) \<Rightarrow> (Some (Errorf ''failed to rotate segment'' err), w4, wd4)
                | (None, w4, wd4) \<Rightarrow> (None, w4, wd4))
             else (None, w3, wd3)))))"

subsection \<open>The HTTP handler\<close>

text \<open>
  A request body is classified by the first JSON value the decoder finds in it: none
  (an empty or malformed body), \<^verbatim>\<open>null\<close>, an object, or any other value. Decoding into a
  Go map accepts an object, and also \<^verbatim>\<open>null\<close>, which leaves the map nil and is no error;
  every other body is an error. The query is the list of its key-value pairs in order,
  and \<open>Get\<close> returns the first value of a key, or the empty string.
\<close>

datatype body = Malformed | JSONNull | JSONObject string | JSONOther

record request =
  reqMethod :: string
  query :: "(string \<times> string) list"
  reqBody :: body

record created =
  r_offset :: go_int
  r_segment :: go_int
  r_topic :: string
  r_payload :: payload
  r_message :: string
  r_fileSize :: string

datatype response = HttpError string nat | Created created

definition Decode :: "body \<Rightarrow> error + payload" where
  "Decode b =
     (case b of
        Malformed \<Rightarrow> Inl InvalidJSON
      | JSONNull \<Rightarrow> Inr NilMap
      | JSONObject s \<Rightarrow> Inr (MapValue s)
      | JSONOther \<Rightarrow> Inl InvalidJSON)"

definition query_Get :: "(string \<times> string) list \<Rightarrow> string \<Rightarrow> string" where
  "query_Get q k = (case map_of q k of None \<Rightarrow> [] | Some v \<Rightarrow> v)"

definition handleWrite :: "WAL \<Rightarrow> world \<Rightarrow> request \<Rightarrow> response \<times> WAL \<times> world" where
  "handleWrite w wd req =
     (case Decode (reqBody req) of
        Inl err \<Rightarrow> (HttpError ''Invalid payload'' 400, w, wd)
      | Inr payload \<Rightarrow>
          let topic = query_Get (query req) ''topic'';
              topic = (if topic = [] then ''default'' else topic)
          in case WriteLog topic payload w wd of
               (Some err, w1, wd1) \<Rightarrow> (HttpError ''Failed to write log'' 500, w1, wd1)
             | (None, w1, wd1) \<Rightarrow>
                 (Created \<lparr>r_offset = offset w1, r_segment = currentSegmentIndex w1,
                           r_topic = topic, r_payload = payload,
                           r_message = ''Log entry written successfully'',
                           r_fileSize = fname (currentSegment w1)\<rparr>, w1, wd1))"

definition ServerHTTP :: "WAL \<Rightarrow> world \<Rightarrow> request \<Rightarrow> response \<times> WAL \<times> world" where
  "ServerHTTP w wd req =
     (if reqMethod req = ''POST'' then handleWrite w wd req
      else (HttpError ''Method not allowed'' 405, w, wd))"

subsection \<open>Predicates used in the statements\<close>

text \<open>
  The name cache is sound when every entry stored under the key of a pair holds the path
  computed for that pair. The empty cache of a fresh process is sound.
\<close>

definition cache_ok :: "(string \<rightharpoonup> string) \<Rightarrow> bool" where
  "cache_ok c =
     (\<forall>d i. c (d @ '':'' @ fmt_d i) = None \<or> c (d @ '':'' @ fmt_d i) = Some (segmentPath d i))"


text \<open>Calls that are all writes to one file; calls that are all writes or syncs.\<close>

definition writesTo :: "string \<Rightarrow> call list \<Rightarrow> bool" where
  "writesTo path cs = list_all (\<lambda>c. case c of CallWrite q p \<Rightarrow> q = path | _ \<Rightarrow> False) cs"

definition dataCalls :: "call list \<Rightarrow> bool" where
  "dataCalls cs =
     list_all (\<lambda>c. case c of CallWrite q p \<Rightarrow> True | CallSync q \<Rightarrow> True | _ \<Rightarrow> False) cs"

subsection \<open>Concrete worlds and requests\<close>

definition freshWorld :: world where
  "freshWorld = \<lparr>fs = [], faults = [], calls = [], segmentNameCache = Map.empty\<rparr>"

definition smallPayload :: payload where
  \<open>smallPayload = MapValue ''{"id":1}''\<close>

definition bigObject :: string where
  \<open>bigObject = ''{"k":"'' @ replicate 500 (CHR ''a'') @ ''"}''\<close>

definition bigPayload :: payload where
  "bigPayload = MapValue bigObject"

definition postOrder :: "string \<Rightarrow> request" where
  "postOrder object =
     \<lparr>reqMethod = ''POST'', query = [(''topic'', ''orders'')], reqBody = JSONObject object\<rparr>"

definition postNull :: request where
  "postNull = \<lparr>reqMethod = ''POST'', query = [], reqBody = JSONNull\<rparr>"

definition segmentsWorld :: world where
  "segmentsWorld = freshWorld\<lparr>fs :=
     [(''wal_data'', Dir),
      (''wal_data/wal_1.log'', File ''x'' ''x''),
      (''wal_data/wal_5.log'', File ''abc'' ''abc''),
      (''wal_data/wal_2.log'', File [] []),
      (''wal_data/notes.txt'', File [] []),
      (''wal_data/wal_7.log'', Dir),
      (''other/wal_9.log'', File [] [])]\<rparr>"


text \<open>The engine and the world after \<open>newWriteAheadLOG\<close> on \<open>freshWorld\<close> and on \<open>segmentsWorld\<close>.\<close>

definition freshWAL :: WAL where
  "freshWAL =
     \<lparr>directory = ''wal_data'',
      currentSegment = \<lparr>fname = ''wal_data/wal_1.log'', closed = False\<rparr>,
      writer = \<lparr>buf = [], werr = None\<rparr>, currentSegmentIndex = 1, offset = 1,
      encoderErr = None\<rparr>"

definition openedWorld :: world where
  "openedWorld =
     \<lparr>fs = [(''wal_data'', Dir), (''wal_data/wal_1.log'', File [] [])],
      faults = [],
      calls = [CallMkdirAll ''wal_data'', CallReadDir ''wal_data'',
               CallOpenFile ''wal_data/wal_1.log'', CallStat ''wal_data/wal_1.log''],
      segmentNameCache = [''wal_data:1'' \<mapsto> ''wal_data/wal_1.log'']\<rparr>"

definition resumedWAL :: WAL where
  "resumedWAL =
     \<lparr>directory = ''wal_data'',
      currentSegment = \<lparr>fname = ''wal_data/wal_5.log'', closed = False\<rparr>,
      writer = \<lparr>buf = [], werr = None\<rparr>, currentSegmentIndex = 5, offset = 4,
      encoderErr = None\<rparr>"

definition resumedWorld :: world where
  "resumedWorld =
     segmentsWorld
       \<lparr>calls := [CallMkdirAll ''wal_data'', CallReadDir ''wal_data'',
                  CallOpenFile ''wal_data/wal_5.log'', CallStat ''wal_data/wal_5.log''],
        segmentNameCache := [''wal_data:5'' \<mapsto> ''wal_data/wal_5.log'']\<rparr>"

text \<open>The record of an entry with topic \<^verbatim>\<open>orders\<close> and payload \<open>smallPayload\<close>.\<close>

definition orderLine :: "go_int \<Rightarrow> string" where
  \<open>orderLine off =
     ''{"offset":'' @ fmt_d off @ '',"topic":"orders","payload":{"id":1}}'' @ [CHR 0x0A]\<close>

text \<open>The record of an entry with topic \<^verbatim>\<open>orders\<close> and payload \<open>bigPayload\<close>.\<close>

definition bigLine :: "go_int \<Rightarrow> string" where
  \<open>bigLine off =
     ''{"offset":'' @ fmt_d off @ '',"topic":"orders","payload":{"k":"''
       @ replicate 500 (CHR ''a'') @ ''"}}'' @ [CHR 0x0A]\<close>

text \<open>The engine and the world after a first append, of \<open>bigPayload\<close>, to the fresh engine.\<close>

definition rotatedWAL :: WAL where
  "rotatedWAL =
     freshWAL\<lparr>currentSegment := \<lparr>fname = ''wal_data/wal_2.log'', closed = False\<rparr>,
              currentSegmentIndex := 2, offset := 3\<rparr>"

definition rotatedWorld :: world where
  "rotatedWorld =
     openedWorld
       \<lparr>fs := [(''wal_data'', Dir),
               (''wal_data/wal_1.log'', File (bigLine 1) (bigLine 1)),
               (''wal_data/wal_2.log'', File [] [])],
        calls := calls openedWorld @
                 [CallWrite ''wal_data/wal_1.log'' (bigLine 1),
                  CallSync ''wal_data/wal_1.log'', CallStat ''wal_data/wal_1.log'',
                  CallSync ''wal_data/wal_1.log'', CallClose ''wal_data/wal_1.log'',
                  CallOpenFile ''wal_data/wal_2.log''],
        segmentNameCache := (segmentNameCache openedWorld)
                              (''wal_data:2'' \<mapsto> ''wal_data/wal_2.log'')\<rparr>"

text \<open>
  The world after a first append, of \<open>smallPayload\<close>, to the fresh engine, whether the size
  check that follows the write succeeds or fails.
\<close>

definition appendedWorld :: world where
  "appendedWorld =
     openedWorld
       \<lparr>fs := [(''wal_data'', Dir),
               (''wal_data/wal_1.log'', File (orderLine 1) (orderLine 1))],
        calls := calls openedWorld @
                 [CallWrite ''wal_data/wal_1.log'' (orderLine 1),
                  CallSync ''wal_data/wal_1.log'', CallStat ''wal_data/wal_1.log'']\<rparr>"

text \<open>The record of an entry with topic \<^verbatim>\<open>default\<close> and the nil map as payload.\<close>

definition nullLine :: "go_int \<Rightarrow> string" where
  \<open>nullLine off =
     ''{"offset":'' @ fmt_d off @ '',"topic":"default","payload":null}'' @ [CHR 0x0A]\<close>

subsection \<open>The handler as the specification words it\<close>

text \<open>The body is a valid JSON object.\<close>

definition spec_isJSONObject :: "body \<Rightarrow> bool" where
  "spec_isJSONObject b = (case b of JSONObject s \<Rightarrow> True | _ \<Rightarrow> False)"

subsection \<open>The locator as the specification words it\<close>



section \<open>Auxiliary facts\<close>

lemma digit_char_props:
  "d < 10 \<Longrightarrow> isDigit (''0123456789'' ! d) \<and> digitVal (''0123456789'' ! d) = d
     \<and> ''0123456789'' ! d \<noteq> CHR '':'' \<and> ''0123456789'' ! d \<noteq> CHR ''-'' \<and> ''0123456789'' ! d \<noteq> CHR ''+''"
proof -
  assume "d < 10"
  then have "d \<in> {0, 1, 2, 3, 4, 5, 6, 7, 8, 9}"
    by auto
  then show ?thesis
    by (auto simp: isDigit_def digitVal_def)
qed

lemma showNat_nonempty: "showNat n \<noteq> []"
  by (subst showNat.simps) simp

lemma showNat_digits: "list_all isDigit (showNat n)"
proof (induction n rule: showNat.induct)
  case (1 n)
  show ?case
  proof (cases "n < 10")
    case True
    then show ?thesis by (subst showNat.simps) (simp add: digit_char_props)
  next
    case False
    then have "list_all isDigit (showNat (n div 10))" using 1 by simp
    moreover have "isDigit (''0123456789'' ! (n mod 10))" by (simp add: digit_char_props)
    ultimately show ?thesis using False by (subst showNat.simps) simp
  qed
qed

lemma showNat_value: "foldl (\<lambda>n ch. n * 10 + digitVal ch) 0 (showNat n) = n"
proof (induction n rule: showNat.induct)
  case (1 n)
  show ?case
  proof (cases "n < 10")
    case True
    then show ?thesis by (subst showNat.simps) (simp add: digit_char_props)
  next
    case False
    then have "foldl (\<lambda>n ch. n * 10 + digitVal ch) 0 (showNat (n div 10)) = n div 10" using 1 by simp
    moreover have "digitVal (''0123456789'' ! (n mod 10)) = n mod 10" by (simp add: digit_char_props)
    ultimately show ?thesis using False by (subst showNat.simps) simp
  qed
qed

lemma parseDigits_showNat: "parseDigits (showNat n) = Some n"
  by (simp add: parseDigits_def showNat_nonempty showNat_digits showNat_value)

lemma isDigit_not_sign: "isDigit c \<Longrightarrow> c \<noteq> CHR ''-'' \<and> c \<noteq> CHR ''+'' \<and> c \<noteq> CHR '':''"
  by (auto simp: isDigit_def)

lemma showNat_hd: "hd (showNat n) \<noteq> CHR ''-'' \<and> hd (showNat n) \<noteq> CHR ''+''"
proof -
  have "isDigit (hd (showNat n))"
    using showNat_digits [of n] showNat_nonempty [of n]
    by (cases "showNat n") simp_all
  then show ?thesis using isDigit_not_sign by blast
qed

lemma Atoi_fmt_d: "Atoi (fmt_d i) = Some i"
proof (cases "sint i < 0")
  case True
  have b: "nat (- sint i) \<le> 2 ^ 63"
    using sint_ge [of i] by simp
  have "word_of_int (- int (nat (- sint i))) = i"
    using True by simp
  then show ?thesis
    using True b by (simp add: fmt_d_def showInt_def Atoi_def parseDigits_showNat)
next
  case False
  have b: "nat (sint i) < 2 ^ 63"
    using sint_lt [of i] False by simp
  have w: "word_of_nat (nat (sint i)) = i"
    using False by simp
  obtain c cs where s: "showNat (nat (sint i)) = c # cs"
    using showNat_nonempty [of "nat (sint i)"] by (cases "showNat (nat (sint i))") auto
  have c: "c \<noteq> CHR ''-''" "c \<noteq> CHR ''+''"
    using showNat_hd [of "nat (sint i)"] s by simp_all
  have "parseDigits (c # cs) = Some (nat (sint i))"
    using parseDigits_showNat [of "nat (sint i)"] s by simp
  then show ?thesis
    using False b w c s by (simp add: fmt_d_def showInt_def Atoi_def)
qed

lemma fmt_d_inj: "fmt_d i = fmt_d j \<Longrightarrow> i = j"
  by (metis Atoi_fmt_d option.inject)

lemma fmt_d_no_colon: "CHR '':'' \<notin> set (fmt_d i)"
proof -
  have "\<forall>c \<in> set (showNat n). c \<noteq> CHR '':''" for n
    using showNat_digits [of n] isDigit_not_sign by (auto simp: list_all_iff)
  then show ?thesis
    by (auto simp: fmt_d_def showInt_def)
qed

lemma split_last_sep:
  assumes "xs @ c # ys = xs' @ c # ys'" "c \<notin> set ys" "c \<notin> set ys'"
  shows "xs = xs' \<and> ys = ys'"
  using assms
proof (induction xs arbitrary: xs')
  case Nil
  then show ?case by (cases xs') auto
next
  case (Cons a xs)
  then show ?case by (cases xs') auto
qed

lemma key_inj:
  "d @ '':'' @ fmt_d i = d' @ '':'' @ fmt_d j \<Longrightarrow> d = d' \<and> i = j"
  using split_last_sep [of d "CHR '':''" "fmt_d i" d' "fmt_d j"] fmt_d_no_colon fmt_d_inj
  by auto

lemma showNat_no_leading_zero: "n \<noteq> 0 \<Longrightarrow> hd (showNat n) \<noteq> CHR ''0''"
proof (induction n rule: showNat.induct)
  case (1 n)
  show ?case
  proof (cases "n < 10")
    case True
    then have "n \<in> {1, 2, 3, 4, 5, 6, 7, 8, 9}" using "1.prems" by auto
    then show ?thesis by (subst showNat.simps) auto
  next
    case False
    then have "hd (showNat (n div 10)) \<noteq> CHR ''0''" using 1 by simp
    then show ?thesis using False showNat_nonempty [of "n div 10"]
      by (subst showNat.simps) simp
  qed
qed

lemma cache_ok_empty: "cache_ok Map.empty"
  by (simp add: cache_ok_def)

lemma segmentFileName_ok:
  assumes "cache_ok (segmentNameCache wd)"
  shows "fst (segmentFileName d i wd) = segmentPath d i"
    and "cache_ok (segmentNameCache (snd (segmentFileName d i wd)))"
    and "fs (snd (segmentFileName d i wd)) = fs wd"
    and "faults (snd (segmentFileName d i wd)) = faults wd"
    and "calls (snd (segmentFileName d i wd)) = calls wd"
proof -
  have k: "segmentNameCache wd (d @ '':'' @ fmt_d i) = None
        \<or> segmentNameCache wd (d @ '':'' @ fmt_d i) = Some (segmentPath d i)"
    using assms by (simp add: cache_ok_def)
  then show "fst (segmentFileName d i wd) = segmentPath d i"
    by (auto simp: segmentFileName_def segmentPath_def Let_def)
  show "cache_ok (segmentNameCache (snd (segmentFileName d i wd)))"
  proof (cases "segmentNameCache wd (d @ '':'' @ fmt_d i)")
    case None
    have "cache_ok ((segmentNameCache wd)(d @ '':'' @ fmt_d i \<mapsto> segmentPath d i))"
      unfolding cache_ok_def
    proof (intro allI)
      fix d' j
      show "((segmentNameCache wd)(d @ '':'' @ fmt_d i \<mapsto> segmentPath d i)) (d' @ '':'' @ fmt_d j) = None \<or>
            ((segmentNameCache wd)(d @ '':'' @ fmt_d i \<mapsto> segmentPath d i)) (d' @ '':'' @ fmt_d j) = Some (segmentPath d' j)"
      proof (cases "d' @ '':'' @ fmt_d j = d @ '':'' @ fmt_d i")
        case True
        then have "d' = d \<and> j = i" by (rule key_inj)
        then show ?thesis by simp
      next
        case False
        then show ?thesis using assms by (simp add: cache_ok_def)
      qed
    qed
    then show ?thesis using None
      by (simp add: segmentFileName_def segmentPath_def Let_def)
  next
    case (Some n)
    then show ?thesis using assms by (simp add: segmentFileName_def Let_def)
  qed
  show "fs (snd (segmentFileName d i wd)) = fs wd"
    by (simp add: segmentFileName_def Let_def split: option.splits)
  show "faults (snd (segmentFileName d i wd)) = faults wd"
    by (simp add: segmentFileName_def Let_def split: option.splits)
  show "calls (snd (segmentFileName d i wd)) = calls wd"
    by (simp add: segmentFileName_def Let_def split: option.splits)
qed

lemma segmentFileNames_ok:
  "cache_ok (segmentNameCache wd) \<Longrightarrow>
   fst (segmentFileNames cs wd) = map (\<lambda>(d, i). segmentPath d i) cs"
proof (induction cs arbitrary: wd)
  case Nil
  then show ?case by simp
next
  case (Cons c cs)
  obtain d i where c: "c = (d, i)" by (cases c)
  obtain n wd1 where s: "segmentFileName d i wd = (n, wd1)" by (cases "segmentFileName d i wd")
  have n: "n = segmentPath d i" and ok: "cache_ok (segmentNameCache wd1)"
    using segmentFileName_ok(1,2) [OF Cons.prems, of d i] s by simp_all
  show ?case using Cons.IH [OF ok] c s n
    by (cases "segmentFileNames cs wd1") simp
qed








lemma map_of_putNode: "map_of (putNode p n t) = (map_of t)(p \<mapsto> n)"
  by (induction t) (auto simp: fun_eq_iff)

lemma syscall_effect:
  "syscall c wd = (b, wd1) \<Longrightarrow>
     fs wd1 = fs wd \<and> calls wd1 = calls wd @ [c] \<and> segmentNameCache wd1 = segmentNameCache wd"
  by (auto simp: syscall_def split: list.splits)

lemma file_Write_None:
  assumes "file_Write f p wd = (None, wd1)"
  shows "\<not> closed f"
    and "\<exists>c s. map_of (fs wd) (fname f) = Some (File c s)
               \<and> map_of (fs wd1) = (map_of (fs wd))(fname f \<mapsto> File (c @ p) s)"
    and "calls wd1 = calls wd @ [CallWrite (fname f) p]"
    and "segmentNameCache wd1 = segmentNameCache wd"
  using assms
  by (auto simp: file_Write_def map_of_putNode dest!: syscall_effect
           split: if_splits prod.splits bool.splits option.splits node.splits)

lemma file_Write_Some:
  assumes "file_Write f p wd = (Some e, wd1)"
  shows "fs wd1 = fs wd"
    and "segmentNameCache wd1 = segmentNameCache wd"
    and "calls wd1 = calls wd \<or> calls wd1 = calls wd @ [CallWrite (fname f) p]"
  using assms
  by (auto simp: file_Write_def dest!: syscall_effect
           split: if_splits prod.splits bool.splits option.splits node.splits)

lemma file_Sync_None:
  assumes "file_Sync f wd = (None, wd1)"
  shows "\<not> closed f"
    and "\<exists>c s. map_of (fs wd) (fname f) = Some (File c s)
               \<and> map_of (fs wd1) = (map_of (fs wd))(fname f \<mapsto> File c c)"
    and "calls wd1 = calls wd @ [CallSync (fname f)]"
    and "segmentNameCache wd1 = segmentNameCache wd"
  using assms
  by (auto simp: file_Sync_def map_of_putNode dest!: syscall_effect
           split: if_splits prod.splits bool.splits option.splits node.splits)

lemma file_Sync_Some:
  assumes "file_Sync f wd = (Some e, wd1)"
  shows "fs wd1 = fs wd"
    and "segmentNameCache wd1 = segmentNameCache wd"
    and "calls wd1 = calls wd \<or> calls wd1 = calls wd @ [CallSync (fname f)]"
  using assms
  by (auto simp: file_Sync_def dest!: syscall_effect
           split: if_splits prod.splits bool.splits option.splits node.splits)

lemma file_Stat_effect:
  assumes "file_Stat f wd = (r, wd1)"
  shows "fs wd1 = fs wd"
    and "segmentNameCache wd1 = segmentNameCache wd"
    and "calls wd1 = calls wd \<or> calls wd1 = calls wd @ [CallStat (fname f)]"
  using assms
  by (auto simp: file_Stat_def dest!: syscall_effect
           split: if_splits prod.splits bool.splits option.splits node.splits)

lemma file_Stat_Inr:
  assumes "file_Stat f wd = (Inr n, wd1)"
  shows "\<not> closed f"
    and "\<exists>c s. map_of (fs wd) (fname f) = Some (File c s) \<and> n = length c"
    and "calls wd1 = calls wd @ [CallStat (fname f)]"
  using assms
  by (auto simp: file_Stat_def dest!: syscall_effect
           split: if_splits prod.splits bool.splits option.splits node.splits)

lemma file_Close_None:
  assumes "file_Close f wd = (None, f1, wd1)"
  shows "\<not> closed f" and "f1 = f\<lparr>closed := True\<rparr>"
    and "fs wd1 = fs wd"
    and "calls wd1 = calls wd @ [CallClose (fname f)]"
    and "segmentNameCache wd1 = segmentNameCache wd"
  using assms
  by (auto simp: file_Close_def dest!: syscall_effect
           split: if_splits prod.splits bool.splits)

lemma os_OpenFile_Inr:
  assumes "os_OpenFile p wd = (Inr f, wd1)"
  shows "f = \<lparr>fname = p, closed = False\<rparr>"
    and "calls wd1 = calls wd @ [CallOpenFile p]"
    and "segmentNameCache wd1 = segmentNameCache wd"
    and "(\<exists>c s. map_of (fs wd) p = Some (File c s) \<and> fs wd1 = fs wd)
         \<or> (map_of (fs wd) p = None \<and> map_of (fs wd1) = (map_of (fs wd))(p \<mapsto> File [] []))"
  using assms
  by (auto simp: os_OpenFile_def map_of_putNode dest!: syscall_effect
           split: if_splits prod.splits bool.splits option.splits node.splits)

lemma bufio_Flush_None:
  assumes "bufio_Flush b f wd = (None, b1, wd1)"
  shows "werr b = None" and "b1 = b\<lparr>buf := []\<rparr>"
    and "buf b = [] \<Longrightarrow> wd1 = wd"
    and "buf b \<noteq> [] \<Longrightarrow> file_Write f (buf b) wd = (None, wd1)"
  using assms
  by (auto simp: bufio_Flush_def split: option.splits if_splits prod.splits)

lemma bufio_Flush_Some:
  assumes "bufio_Flush b f wd = (Some e, b1, wd1)"
  shows "fs wd1 = fs wd"
    and "segmentNameCache wd1 = segmentNameCache wd"
    and "calls wd1 = calls wd \<or> calls wd1 = calls wd @ [CallWrite (fname f) (buf b)]"
  using assms
  by (auto simp: bufio_Flush_def dest: file_Write_Some split: option.splits if_splits prod.splits)

lemma writesTo_simps [simp]:
  "writesTo path []"
  "writesTo path (CallWrite q p # cs) = (q = path \<and> writesTo path cs)"
  "writesTo path (xs @ ys) = (writesTo path xs \<and> writesTo path ys)"
  by (auto simp: writesTo_def)

lemma writer_New [simp]: "buf NewWriterSize = []" "werr NewWriterSize = None"
  by (simp_all add: NewWriterSize_def)

lemma directWrite_None:
  assumes "directWrite b f p wd = (None, b1, wd1)"
  shows "b1 = b" and "file_Write f p wd = (None, wd1)"
  using assms by (auto simp: directWrite_def split: prod.splits option.splits)

lemma bufio_Write_None:
  assumes "bufio_Write b f p wd = (None, b1, wd1)"
  shows "werr b = None \<and> werr b1 = None \<and> segmentNameCache wd1 = segmentNameCache wd
       \<and> (\<exists>ws. calls wd1 = calls wd @ ws \<and> writesTo (fname f) ws)
       \<and> ((fs wd1 = fs wd \<and> buf b1 = buf b @ p)
          \<or> (\<exists>c s x. map_of (fs wd) (fname f) = Some (File c s)
                \<and> map_of (fs wd1) = (map_of (fs wd))(fname f \<mapsto> File (c @ x) s)
                \<and> x @ buf b1 = buf b @ p))"
proof -
  have e: "werr b = None"
    using assms by (auto simp: bufio_Write_def split: option.splits)
  show ?thesis
  proof (cases "length p \<le> bufferSize - length (buf b)")
    case True
    then show ?thesis using assms e by (auto simp: bufio_Write_def)
  next
    case big: False
    show ?thesis
    proof (cases "buf b = []")
      case True
      then have d: "directWrite b f p wd = (None, b1, wd1)"
        using assms e big by (simp add: bufio_Write_def)
      note fw = file_Write_None [OF directWrite_None(2) [OF d]]
      from fw(2) obtain c s where
        "map_of (fs wd) (fname f) = Some (File c s)"
        "map_of (fs wd1) = (map_of (fs wd))(fname f \<mapsto> File (c @ p) s)" by blast
      then show ?thesis using e True fw(3,4) directWrite_None(1) [OF d]
        by auto
    next
      case False
      let ?n = "bufferSize - length (buf b)"
      let ?b0 = "b\<lparr>buf := buf b @ take ?n p\<rparr>"
      obtain r b2 wd2 where fl: "bufio_Flush ?b0 f wd = (r, b2, wd2)"
        by (cases "bufio_Flush ?b0 f wd") auto
      have r: "r = None"
        using assms e big False fl by (auto simp: bufio_Write_def Let_def split: option.splits)
      note f1 = bufio_Flush_None [OF fl [unfolded r]]
      have ne: "buf ?b0 \<noteq> []" using False by simp
      note fw1 = file_Write_None [OF f1(4) [OF ne]]
      from fw1(2) obtain c s where c:
        "map_of (fs wd) (fname f) = Some (File c s)"
        "map_of (fs wd2) = (map_of (fs wd))(fname f \<mapsto> File (c @ buf b @ take ?n p) s)" by auto
      show ?thesis
      proof (cases "length (drop ?n p) \<le> bufferSize")
        case True
        then have "b1 = b2\<lparr>buf := drop ?n p\<rparr>" "wd1 = wd2"
          using assms e big False fl r by (auto simp: bufio_Write_def Let_def)
        then show ?thesis using e c f1(1,2) fw1(3,4)
          by (auto intro!: exI [of _ "buf b @ take ?n p"])
      next
        case rest: False
        then have d: "directWrite b2 f (drop ?n p) wd2 = (None, b1, wd1)"
          using assms e big False fl r by (auto simp: bufio_Write_def Let_def)
        note fw2 = file_Write_None [OF directWrite_None(2) [OF d]]
        from fw2(2) c have
          "map_of (fs wd1) = (map_of (fs wd))(fname f \<mapsto> File (c @ buf b @ p) s)"
          by auto
        then show ?thesis using e c f1(1,2) fw1(3,4) fw2(3,4) directWrite_None(1) [OF d]
          by auto
      qed
    qed
  qed
qed

lemma FlushE_None:
  assumes "FlushE w wd = (None, w1, wd1)"
  shows "w1 = w\<lparr>writer := NewWriterSize\<rparr>" and "werr (writer w) = None"
    and "\<not> closed (currentSegment w)"
    and "\<exists>c s. map_of (fs wd) (fname (currentSegment w)) = Some (File c s)
           \<and> map_of (fs wd1) = (map_of (fs wd))(fname (currentSegment w) \<mapsto>
                 File (c @ buf (writer w)) (c @ buf (writer w)))"
    and "calls wd1 = calls wd @ (if buf (writer w) = [] then []
                                 else [CallWrite (fname (currentSegment w)) (buf (writer w))])
                     @ [CallSync (fname (currentSegment w))]"
    and "segmentNameCache wd1 = segmentNameCache wd"
proof -
  obtain b wd2 where fl: "bufio_Flush (writer w) (currentSegment w) wd = (None, b, wd2)"
    and sy: "file_Sync (currentSegment w) wd2 = (None, wd1)"
    and w1: "w1 = w\<lparr>writer := b\<rparr>"
    using assms by (auto simp: FlushE_def split: prod.splits option.splits)
  note f = bufio_Flush_None [OF fl]
  note s = file_Sync_None [OF sy]
  show "werr (writer w) = None" by (rule f(1))
  show "w1 = w\<lparr>writer := NewWriterSize\<rparr>"
    using w1 f(1,2) by (simp add: NewWriterSize_def)
  show "\<not> closed (currentSegment w)" by (rule s(1))
  show "segmentNameCache wd1 = segmentNameCache wd"
  proof (cases "buf (writer w) = []")
    case True
    then show ?thesis using f(3) s(4) by simp
  next
    case False
    then show ?thesis using file_Write_None(4) [OF f(4) [OF False]] s(4) by simp
  qed
  show "calls wd1 = calls wd @ (if buf (writer w) = [] then []
                                 else [CallWrite (fname (currentSegment w)) (buf (writer w))])
                     @ [CallSync (fname (currentSegment w))]"
  proof (cases "buf (writer w) = []")
    case True
    then show ?thesis using f(3) s(3) by simp
  next
    case False
    then show ?thesis using file_Write_None(3) [OF f(4) [OF False]] s(3) by simp
  qed
  show "\<exists>c s. map_of (fs wd) (fname (currentSegment w)) = Some (File c s)
           \<and> map_of (fs wd1) = (map_of (fs wd))(fname (currentSegment w) \<mapsto>
                 File (c @ buf (writer w)) (c @ buf (writer w)))"
  proof (cases "buf (writer w) = []")
    case True
    then show ?thesis using f(3) s(2) by auto
  next
    case False
    from file_Write_None(2) [OF f(4) [OF False]] s(2) show ?thesis by auto
  qed
qed

lemma Encode_None:
  assumes "Encode entry w wd = (None, w1, wd1)"
  shows "\<exists>line b. marshalEntry entry = Some line \<and> encoderErr w = None
           \<and> bufio_Write (writer w) (currentSegment w) line wd = (None, b, wd1)
           \<and> w1 = w\<lparr>writer := b\<rparr>"
  using assms by (auto simp: Encode_def split: option.splits prod.splits)

lemma commit:
  assumes en: "Encode entry w wd = (None, w1, wd1)"
      and fl: "FlushE w1 wd1 = (None, w2, wd2)"
  shows "\<exists>line c s ws.
           marshalEntry entry = Some line
         \<and> map_of (fs wd) (fname (currentSegment w)) = Some (File c s)
         \<and> map_of (fs wd2) = (map_of (fs wd))(fname (currentSegment w) \<mapsto>
               File (c @ buf (writer w) @ line) (c @ buf (writer w) @ line))
         \<and> calls wd2 = calls wd @ ws @ [CallSync (fname (currentSegment w))]
         \<and> writesTo (fname (currentSegment w)) ws"
    and "w2 = w\<lparr>writer := NewWriterSize\<rparr>"
    and "encoderErr w = None" and "werr (writer w) = None" and "\<not> closed (currentSegment w)"
    and "segmentNameCache wd2 = segmentNameCache wd"
proof -
  let ?f = "currentSegment w"
  from Encode_None [OF en] obtain line b where
    m: "marshalEntry entry = Some line" and ee: "encoderErr w = None"
    and bw: "bufio_Write (writer w) ?f line wd = (None, b, wd1)"
    and w1: "w1 = w\<lparr>writer := b\<rparr>" by blast
  note B = bufio_Write_None [OF bw]
  note F = FlushE_None [OF fl]
  have cs: "currentSegment w1 = ?f" using w1 by simp
  show "w2 = w\<lparr>writer := NewWriterSize\<rparr>" using F(1) w1 by simp
  show "encoderErr w = None" by (rule ee)
  show "werr (writer w) = None" using B by simp
  show "\<not> closed ?f" using F(3) cs by simp
  show "segmentNameCache wd2 = segmentNameCache wd" using F(6) B by simp
  from B obtain ws where ws: "calls wd1 = calls wd @ ws" "writesTo (fname ?f) ws" by blast
  let ?ws2 = "ws @ (if buf b = [] then [] else [CallWrite (fname ?f) (buf b)])"
  have calls: "calls wd2 = calls wd @ ?ws2 @ [CallSync (fname ?f)]"
    using F(5) ws(1) w1 by simp
  have wt: "writesTo (fname ?f) ?ws2" using ws(2) by simp
  from F(4) obtain c1 s1 where c1:
    "map_of (fs wd1) (fname ?f) = Some (File c1 s1)"
    "map_of (fs wd2) = (map_of (fs wd1))(fname ?f \<mapsto> File (c1 @ buf b) (c1 @ buf b))"
    using w1 by auto
  from B have "(fs wd1 = fs wd \<and> buf b = buf (writer w) @ line)
          \<or> (\<exists>c s x. map_of (fs wd) (fname ?f) = Some (File c s)
                \<and> map_of (fs wd1) = (map_of (fs wd))(fname ?f \<mapsto> File (c @ x) s)
                \<and> x @ buf b = buf (writer w) @ line)" by blast
  then have "\<exists>c s. map_of (fs wd) (fname ?f) = Some (File c s)
         \<and> map_of (fs wd2) = (map_of (fs wd))(fname ?f \<mapsto>
               File (c @ buf (writer w) @ line) (c @ buf (writer w) @ line))"
  proof
    assume "fs wd1 = fs wd \<and> buf b = buf (writer w) @ line"
    then show ?thesis using c1 by auto
  next
    assume "\<exists>c s x. map_of (fs wd) (fname ?f) = Some (File c s)
                \<and> map_of (fs wd1) = (map_of (fs wd))(fname ?f \<mapsto> File (c @ x) s)
                \<and> x @ buf b = buf (writer w) @ line"
    then obtain c s x where x: "map_of (fs wd) (fname ?f) = Some (File c s)"
      "map_of (fs wd1) = (map_of (fs wd))(fname ?f \<mapsto> File (c @ x) s)"
      "x @ buf b = buf (writer w) @ line" by blast
    then have "c1 = c @ x" using c1(1) by simp
    then have "c1 @ buf b = c @ buf (writer w) @ line" using x(3) by simp
    then show ?thesis using x(1,2) c1(2) by auto
  qed
  then show "\<exists>line c s ws.
           marshalEntry entry = Some line
         \<and> map_of (fs wd) (fname ?f) = Some (File c s)
         \<and> map_of (fs wd2) = (map_of (fs wd))(fname ?f \<mapsto>
               File (c @ buf (writer w) @ line) (c @ buf (writer w) @ line))
         \<and> calls wd2 = calls wd @ ws @ [CallSync (fname ?f)]
         \<and> writesTo (fname ?f) ws"
    using m calls wt by blast
qed

lemma dataCalls_simps [simp]:
  "dataCalls []"
  "dataCalls (CallWrite q p # cs) = dataCalls cs"
  "dataCalls (CallSync q # cs) = dataCalls cs"
  "dataCalls (xs @ ys) = (dataCalls xs \<and> dataCalls ys)"
  by (auto simp: dataCalls_def)

lemma dataCalls_no_rotation:
  "dataCalls cs \<Longrightarrow> c \<in> set cs \<Longrightarrow> c \<noteq> CallClose p \<and> c \<noteq> CallOpenFile p"
  by (auto simp: dataCalls_def list_all_iff split: call.splits)

lemma file_Write_calls:
  "file_Write f p wd = (r, wd1) \<Longrightarrow> \<exists>cs. calls wd1 = calls wd @ cs \<and> dataCalls cs"
  by (cases r) (auto dest: file_Write_None(3) file_Write_Some(3))

lemma file_Sync_calls:
  "file_Sync f wd = (r, wd1) \<Longrightarrow> \<exists>cs. calls wd1 = calls wd @ cs \<and> dataCalls cs"
  by (cases r) (auto dest: file_Sync_None(3) file_Sync_Some(3))

lemma bufio_Flush_calls:
  "bufio_Flush b f wd = (r, b1, wd1) \<Longrightarrow> \<exists>cs. calls wd1 = calls wd @ cs \<and> dataCalls cs"
  by (auto simp: bufio_Flush_def split: option.splits if_splits prod.splits dest: file_Write_calls)

lemma directWrite_calls:
  "directWrite b f p wd = (r, b1, wd1) \<Longrightarrow> \<exists>cs. calls wd1 = calls wd @ cs \<and> dataCalls cs"
  by (auto simp: directWrite_def split: option.splits prod.splits dest: file_Write_calls)

lemma dataCalls_trans:
  assumes "\<exists>cs. calls wd1 = calls wd @ cs \<and> dataCalls cs"
      and "\<exists>cs. calls wd2 = calls wd1 @ cs \<and> dataCalls cs"
  shows "\<exists>cs. calls wd2 = calls wd @ cs \<and> dataCalls cs"
proof -
  from assms obtain a b where "calls wd1 = calls wd @ a" "dataCalls a"
    "calls wd2 = calls wd1 @ b" "dataCalls b" by blast
  then have "calls wd2 = calls wd @ (a @ b) \<and> dataCalls (a @ b)" by simp
  then show ?thesis by blast
qed

lemma dataCalls_refl: "\<exists>cs. calls wd = calls wd @ cs \<and> dataCalls cs"
  by (rule exI [of _ "[]"]) simp

lemma bufio_Write_calls:
  assumes "bufio_Write b f p wd = (r, b1, wd1)"
  shows "\<exists>cs. calls wd1 = calls wd @ cs \<and> dataCalls cs"
proof (cases "werr b")
  case (Some e)
  then show ?thesis using assms dataCalls_refl by (auto simp: bufio_Write_def)
next
  case None
  show ?thesis
  proof (cases "length p \<le> bufferSize - length (buf b)")
    case True
    then show ?thesis using assms None dataCalls_refl by (auto simp: bufio_Write_def)
  next
    case big: False
    show ?thesis
    proof (cases "buf b = []")
      case True
      then show ?thesis using assms None big directWrite_calls by (simp add: bufio_Write_def)
    next
      case False
      let ?n = "bufferSize - length (buf b)"
      obtain r2 b2 wd2 where fl: "bufio_Flush (b\<lparr>buf := buf b @ take ?n p\<rparr>) f wd = (r2, b2, wd2)"
        by (cases "bufio_Flush (b\<lparr>buf := buf b @ take ?n p\<rparr>) f wd") auto
      note c1 = bufio_Flush_calls [OF fl]
      show ?thesis
      proof (cases r2)
        case (Some e)
        then show ?thesis using assms None big False fl c1 by (simp add: bufio_Write_def Let_def)
      next
        case r2: None
        show ?thesis
        proof (cases "length (drop ?n p) \<le> bufferSize")
          case True
          then show ?thesis using assms None big False fl c1 r2 by (simp add: bufio_Write_def Let_def)
        next
          case False2: False
          then have "directWrite b2 f (drop ?n p) wd2 = (r, b1, wd1)"
            using assms None big False fl r2 by (simp add: bufio_Write_def Let_def)
          from dataCalls_trans [OF c1 directWrite_calls [OF this]] show ?thesis .
        qed
      qed
    qed
  qed
qed

lemma Encode_effect:
  assumes "Encode entry w wd = (r, w1, wd1)"
  shows "offset w1 = offset w" and "currentSegmentIndex w1 = currentSegmentIndex w"
    and "currentSegment w1 = currentSegment w" and "directory w1 = directory w"
    and "\<exists>cs. calls wd1 = calls wd @ cs \<and> dataCalls cs"
proof -
  show "offset w1 = offset w" "currentSegmentIndex w1 = currentSegmentIndex w"
    "currentSegment w1 = currentSegment w" "directory w1 = directory w"
    using assms by (auto simp: Encode_def split: option.splits prod.splits)
  show "\<exists>cs. calls wd1 = calls wd @ cs \<and> dataCalls cs"
  proof (cases "encoderErr w")
    case (Some e)
    then show ?thesis using assms dataCalls_refl by (auto simp: Encode_def)
  next
    case None
    show ?thesis
    proof (cases "marshalEntry entry")
      case n: None
      then show ?thesis using assms None dataCalls_refl by (auto simp: Encode_def)
    next
      case (Some line)
      obtain r2 b wd2 where bw: "bufio_Write (writer w) (currentSegment w) line wd = (r2, b, wd2)"
        by (cases "bufio_Write (writer w) (currentSegment w) line wd") auto
      then have "wd1 = wd2" using assms None Some
        by (auto simp: Encode_def split: option.splits)
      then show ?thesis using bufio_Write_calls [OF bw] by simp
    qed
  qed
qed

lemma FlushE_effect:
  assumes "FlushE w wd = (r, w1, wd1)"
  shows "offset w1 = offset w" and "currentSegmentIndex w1 = currentSegmentIndex w"
    and "currentSegment w1 = currentSegment w" and "directory w1 = directory w"
    and "\<exists>cs. calls wd1 = calls wd @ cs \<and> dataCalls cs"
proof -
  show "offset w1 = offset w" "currentSegmentIndex w1 = currentSegmentIndex w"
    "currentSegment w1 = currentSegment w" "directory w1 = directory w"
    using assms by (auto simp: FlushE_def split: option.splits prod.splits)
  obtain r2 b wd2 where fl: "bufio_Flush (writer w) (currentSegment w) wd = (r2, b, wd2)"
    by (cases "bufio_Flush (writer w) (currentSegment w) wd") auto
  note c1 = bufio_Flush_calls [OF fl]
  show "\<exists>cs. calls wd1 = calls wd @ cs \<and> dataCalls cs"
  proof (cases r2)
    case (Some e)
    then show ?thesis using assms fl c1 by (auto simp: FlushE_def)
  next
    case None
    obtain r3 wd3 where sy: "file_Sync (currentSegment w) wd2 = (r3, wd3)"
      by (cases "file_Sync (currentSegment w) wd2") auto
    then have "wd1 = wd3" using assms fl None by (auto simp: FlushE_def split: option.splits)
    then show ?thesis using dataCalls_trans [OF c1 file_Sync_calls [OF sy]] by simp
  qed
qed

lemma rotateSegment_None:
  assumes "rotateSegment w wd = (None, w', wd')"
  shows "w' = w\<lparr>currentSegment := \<lparr>fname = fname (currentSegment w'), closed = False\<rparr>,
               writer := NewWriterSize, currentSegmentIndex := currentSegmentIndex w + 1,
               encoderErr := None, offset := offset w + 1\<rparr>"
    and "calls wd' = calls wd @ (if buf (writer w) = [] then []
                                 else [CallWrite (fname (currentSegment w)) (buf (writer w))])
                     @ [CallSync (fname (currentSegment w)), CallClose (fname (currentSegment w)),
                        CallOpenFile (fname (currentSegment w'))]"
    and "\<exists>c s. map_of (fs wd) (fname (currentSegment w)) = Some (File c s)
           \<and> (map_of (fs wd') = (map_of (fs wd))(fname (currentSegment w) \<mapsto>
                     File (c @ buf (writer w)) (c @ buf (writer w)))
              \<or> (fname (currentSegment w') \<noteq> fname (currentSegment w)
                  \<and> map_of (fs wd) (fname (currentSegment w')) = None
                  \<and> map_of (fs wd') = (map_of (fs wd))(fname (currentSegment w) \<mapsto>
                       File (c @ buf (writer w)) (c @ buf (writer w)),
                       fname (currentSegment w') \<mapsto> File [] [])))"
    and "\<exists>c' s'. map_of (fs wd') (fname (currentSegment w')) = Some (File c' s')"
    and "cache_ok (segmentNameCache wd) \<Longrightarrow>
           fname (currentSegment w') = segmentPath (directory w) (currentSegmentIndex w + 1)
           \<and> cache_ok (segmentNameCache wd')"
proof -
  obtain w1 wd1 where fl: "FlushE w wd = (None, w1, wd1)"
    using assms by (auto simp: rotateSegment_def split: prod.splits option.splits)
  note F = FlushE_None [OF fl]
  obtain f wd2 where cl: "file_Close (currentSegment w1) wd1 = (None, f, wd2)"
    using assms fl by (auto simp: rotateSegment_def split: prod.splits option.splits)
  note C = file_Close_None [OF cl]
  let ?w2 = "w1\<lparr>currentSegment := f, currentSegmentIndex := currentSegmentIndex w1 + 1\<rparr>"
  obtain path wd3 where sn: "segmentFileName (directory ?w2) (currentSegmentIndex ?w2) wd2 = (path, wd3)"
    by (cases "segmentFileName (directory ?w2) (currentSegmentIndex ?w2) wd2") auto
  obtain f' where op: "os_OpenFile path wd3 = (Inr f', wd')"
    and w': "w' = ?w2\<lparr>currentSegment := f', writer := NewWriterSize, encoderErr := None,
                     offset := offset ?w2 + 1\<rparr>"
    using assms fl cl sn
    by (auto simp: rotateSegment_def Let_def split: prod.splits option.splits sum.splits)
  note O = os_OpenFile_Inr [OF op]
  have sn_eff: "fs wd3 = fs wd2" "calls wd3 = calls wd2"
    using sn by (auto simp: segmentFileName_def Let_def split: option.splits)
  have sn': "segmentFileName (directory w) (currentSegmentIndex w + 1) wd2 = (path, wd3)"
    using sn F(1) by simp
  have p: "fname (currentSegment w') = path" using w' O(1) by simp
  let ?old = "fname (currentSegment w)"
  from F(4) obtain c s where c: "map_of (fs wd) ?old = Some (File c s)"
    "map_of (fs wd1) = (map_of (fs wd))(?old \<mapsto>
                 File (c @ buf (writer w)) (c @ buf (writer w)))" by blast
  show "w' = w\<lparr>currentSegment := \<lparr>fname = fname (currentSegment w'), closed = False\<rparr>,
               writer := NewWriterSize, currentSegmentIndex := currentSegmentIndex w + 1,
               encoderErr := None, offset := offset w + 1\<rparr>"
    using w' F(1) O(1) by simp
  show "calls wd' = calls wd @ (if buf (writer w) = [] then []
                                 else [CallWrite ?old (buf (writer w))])
                     @ [CallSync ?old, CallClose ?old, CallOpenFile (fname (currentSegment w'))]"
    using O(2) sn_eff(2) C(4) F(5) F(1) p by simp
  have fs2: "map_of (fs wd3) = (map_of (fs wd))(?old \<mapsto>
                 File (c @ buf (writer w)) (c @ buf (writer w)))"
    using sn_eff(1) C(3) c(2) by simp
  show "\<exists>c' s'. map_of (fs wd') (fname (currentSegment w')) = Some (File c' s')"
    using O(4) p by auto
  have "map_of (fs wd') = (map_of (fs wd))(?old \<mapsto>
                     File (c @ buf (writer w)) (c @ buf (writer w)))
              \<or> (path \<noteq> ?old
                  \<and> map_of (fs wd) path = None
                  \<and> map_of (fs wd') = (map_of (fs wd))(?old \<mapsto>
                       File (c @ buf (writer w)) (c @ buf (writer w)),
                       path \<mapsto> File [] []))"
    using O(4)
  proof
    assume "\<exists>c s. map_of (fs wd3) path = Some (File c s) \<and> fs wd' = fs wd3"
    then show ?thesis using fs2 by auto
  next
    assume a: "map_of (fs wd3) path = None \<and> map_of (fs wd') = (map_of (fs wd3))(path \<mapsto> File [] [])"
    then have ne: "path \<noteq> ?old" using fs2 by auto
    then have "map_of (fs wd) path = None" using a fs2 by simp
    then show ?thesis using a ne fs2 by simp
  qed
  then show "\<exists>c s. map_of (fs wd) ?old = Some (File c s)
           \<and> (map_of (fs wd') = (map_of (fs wd))(?old \<mapsto>
                     File (c @ buf (writer w)) (c @ buf (writer w)))
              \<or> (fname (currentSegment w') \<noteq> ?old
                  \<and> map_of (fs wd) (fname (currentSegment w')) = None
                  \<and> map_of (fs wd') = (map_of (fs wd))(?old \<mapsto>
                       File (c @ buf (writer w)) (c @ buf (writer w)),
                       fname (currentSegment w') \<mapsto> File [] [])))"
    using c(1) p by blast
  show "fname (currentSegment w') = segmentPath (directory w) (currentSegmentIndex w + 1)
           \<and> cache_ok (segmentNameCache wd')" if ok: "cache_ok (segmentNameCache wd)"
  proof -
    have "cache_ok (segmentNameCache wd2)" using ok C(5) F(6) by simp
    from segmentFileName_ok(1,2) [OF this, of "directory w" "currentSegmentIndex w + 1"] sn'
    show ?thesis using p O(3) by simp
  qed
qed

lemma WriteLog_None:
  assumes "WriteLog topic payload w wd = (None, w', wd')"
  shows "\<exists>line c s ws wd3.
       marshalEntry \<lparr>Offset = offset w, Topic = topic, Payload = payload\<rparr> = Some line
     \<and> encoderErr w = None \<and> werr (writer w) = None \<and> \<not> closed (currentSegment w)
     \<and> map_of (fs wd) (fname (currentSegment w)) = Some (File c s)
     \<and> map_of (fs wd3) = (map_of (fs wd))(fname (currentSegment w) \<mapsto>
           File (c @ buf (writer w) @ line) (c @ buf (writer w) @ line))
     \<and> calls wd3 = calls wd @ ws @ [CallSync (fname (currentSegment w)),
                                     CallStat (fname (currentSegment w))]
     \<and> writesTo (fname (currentSegment w)) ws
     \<and> segmentNameCache wd3 = segmentNameCache wd
     \<and> (if maxSegmentSize \<le> length (c @ buf (writer w) @ line)
        then rotateSegment (w\<lparr>writer := NewWriterSize, offset := offset w + 1\<rparr>) wd3 = (None, w', wd')
        else w' = w\<lparr>writer := NewWriterSize, offset := offset w + 1\<rparr> \<and> wd' = wd3)"
proof -
  let ?entry = "\<lparr>Offset = offset w, Topic = topic, Payload = payload\<rparr>"
  let ?f = "currentSegment w"
  obtain w1 wd1 where en: "Encode ?entry w wd = (None, w1, wd1)"
    using assms by (auto simp: WriteLog_def Let_def split: prod.splits option.splits)
  obtain w2 wd2 where fl: "FlushE w1 wd1 = (None, w2, wd2)"
    using assms en by (auto simp: WriteLog_def Let_def split: prod.splits option.splits)
  note K = commit [OF en fl]
  obtain n wd3 where st: "file_Stat (currentSegment w2) wd2 = (Inr n, wd3)"
    using assms en fl by (auto simp: WriteLog_def Let_def split: prod.splits option.splits sum.splits)
  have cs2: "currentSegment w2 = ?f" using K(2) by simp
  note S = file_Stat_Inr [OF st] file_Stat_effect [OF st]
  from K(1) obtain line c s ws where L:
     "marshalEntry ?entry = Some line"
     "map_of (fs wd) (fname ?f) = Some (File c s)"
     "map_of (fs wd2) = (map_of (fs wd))(fname ?f \<mapsto>
               File (c @ buf (writer w) @ line) (c @ buf (writer w) @ line))"
     "calls wd2 = calls wd @ ws @ [CallSync (fname ?f)]"
     "writesTo (fname ?f) ws" by blast
  have n: "n = length (c @ buf (writer w) @ line)"
    using S(2) L(3) cs2 by auto
  have fs3: "map_of (fs wd3) = (map_of (fs wd))(fname ?f \<mapsto>
           File (c @ buf (writer w) @ line) (c @ buf (writer w) @ line))"
    using S(4) L(3) by simp
  have calls3: "calls wd3 = calls wd @ ws @ [CallSync (fname ?f), CallStat (fname ?f)]"
    using S(3) L(4) cs2 by simp
  have cache3: "segmentNameCache wd3 = segmentNameCache wd"
    using S(5) K(6) by simp
  let ?w3 = "w\<lparr>writer := NewWriterSize, offset := offset w + 1\<rparr>"
  have w3: "w2\<lparr>offset := offset w2 + 1\<rparr> = ?w3" using K(2) by simp
  have fin: "if maxSegmentSize \<le> length (c @ buf (writer w) @ line)
        then rotateSegment ?w3 wd3 = (None, w', wd')
        else w' = ?w3 \<and> wd' = wd3"
    using assms en fl st n w3
    by (auto simp: WriteLog_def Let_def split: prod.splits option.splits sum.splits if_splits)
  show ?thesis
    using L(1,2,5) K(3,4,5) fs3 calls3 cache3 fin by blast
qed

lemma file_Close_Some:
  assumes "file_Close f wd = (Some e, f1, wd1)"
  shows "calls wd1 = calls wd \<or> calls wd1 = calls wd @ [CallClose (fname f)]"
    and "segmentNameCache wd1 = segmentNameCache wd"
  using assms
  by (auto simp: file_Close_def dest!: syscall_effect split: if_splits prod.splits bool.splits)

lemma os_OpenFile_calls:
  "os_OpenFile p wd = (r, wd1) \<Longrightarrow> calls wd1 = calls wd @ [CallOpenFile p]"
  by (auto simp: os_OpenFile_def dest!: syscall_effect
           split: if_splits prod.splits bool.splits option.splits node.splits)

lemma bufio_Flush_Some_calls:
  assumes "bufio_Flush b f wd = (Some e, b1, wd1)"
  shows "calls wd1 = calls wd \<or> (buf b \<noteq> [] \<and> calls wd1 = calls wd @ [CallWrite (fname f) (buf b)])"
  using assms
  by (auto simp: bufio_Flush_def dest: file_Write_Some split: option.splits if_splits prod.splits)

lemma FlushE_Some_calls:
  assumes "FlushE w wd = (Some e, w1, wd1)"
  shows "\<exists>pre suf. calls wd1 = calls wd @ pre
           \<and> pre @ suf = (if buf (writer w) = [] then []
                           else [CallWrite (fname (currentSegment w)) (buf (writer w))])
                          @ [CallSync (fname (currentSegment w))]"
proof -
  let ?f = "currentSegment w"
  let ?fl = "if buf (writer w) = [] then [] else [CallWrite (fname ?f) (buf (writer w))]"
  obtain r b wd2 where fl: "bufio_Flush (writer w) ?f wd = (r, b, wd2)"
    by (cases "bufio_Flush (writer w) ?f wd") auto
  show ?thesis
  proof (cases r)
    case (Some x)
    then have "wd1 = wd2" using assms fl by (simp add: FlushE_def)
    with bufio_Flush_Some_calls [OF fl [unfolded Some]]
    have "calls wd1 = calls wd @ [] \<or> (buf (writer w) \<noteq> [] \<and> calls wd1 = calls wd @ ?fl)"
      by auto
    then show ?thesis
    proof
      assume "calls wd1 = calls wd @ []"
      then show ?thesis by (intro exI [of _ "[]"] exI [of _ "?fl @ [CallSync (fname ?f)]"]) simp
    next
      assume "buf (writer w) \<noteq> [] \<and> calls wd1 = calls wd @ ?fl"
      then show ?thesis by (intro exI [of _ ?fl] exI [of _ "[CallSync (fname ?f)]"]) simp
    qed
  next
    case None
    note F = bufio_Flush_None [OF fl [unfolded None]]
    have c2: "calls wd2 = calls wd @ ?fl"
    proof (cases "buf (writer w) = []")
      case True
      then show ?thesis using F(3) by simp
    next
      case False
      then show ?thesis using file_Write_None(3) [OF F(4) [OF False]] by simp
    qed
    obtain x where sy: "file_Sync ?f wd2 = (Some x, wd1)"
      using assms fl None by (auto simp: FlushE_def split: option.splits prod.splits)
    from file_Sync_Some(3) [OF sy] show ?thesis
    proof
      assume "calls wd1 = calls wd2"
      then show ?thesis using c2 by (intro exI [of _ ?fl] exI [of _ "[CallSync (fname ?f)]"]) simp
    next
      assume "calls wd1 = calls wd2 @ [CallSync (fname ?f)]"
      then show ?thesis using c2
        by (intro exI [of _ "?fl @ [CallSync (fname ?f)]"] exI [of _ "[]"]) simp
    qed
  qed
qed

text \<open>
  Whatever the outcome of a rotation, the system calls it has made are an initial part of:
  the flush of the writer, the sync and the close of the old segment, the opening of the
  file the namer gives for the next index.
\<close>

lemma rotateSegment_call_order:
  assumes "rotateSegment w wd = (r, w', wd')" and "cache_ok (segmentNameCache wd)"
  shows "\<exists>pre suf. calls wd' = calls wd @ pre
           \<and> pre @ suf = (if buf (writer w) = [] then []
                           else [CallWrite (fname (currentSegment w)) (buf (writer w))])
                          @ [CallSync (fname (currentSegment w)),
                             CallClose (fname (currentSegment w)),
                             CallOpenFile (segmentPath (directory w) (currentSegmentIndex w + 1))]"
proof -
  let ?old = "fname (currentSegment w)"
  let ?new = "segmentPath (directory w) (currentSegmentIndex w + 1)"
  let ?fl = "(if buf (writer w) = [] then [] else [CallWrite ?old (buf (writer w))]) @ [CallSync ?old]"
  obtain r1 w1 wd1 where fl: "FlushE w wd = (r1, w1, wd1)" by (cases "FlushE w wd") auto
  show ?thesis
  proof (cases r1)
    case (Some e)
    then have "wd' = wd1" using assms(1) fl by (simp add: rotateSegment_def)
    with FlushE_Some_calls [OF fl [unfolded Some]] obtain pre suf where
      "calls wd' = calls wd @ pre" "pre @ suf = ?fl" by auto
    then show ?thesis
      by (intro exI [of _ pre] exI [of _ "suf @ [CallClose ?old, CallOpenFile ?new]"]) simp
  next
    case None
    note F = FlushE_None [OF fl [unfolded None]]
    have c1: "calls wd1 = calls wd @ ?fl" using F(5) by simp
    obtain r2 f wd2 where cl: "file_Close (currentSegment w1) wd1 = (r2, f, wd2)"
      by (cases "file_Close (currentSegment w1) wd1") auto
    have old1: "fname (currentSegment w1) = ?old" using F(1) by simp
    show ?thesis
    proof (cases r2)
      case (Some e)
      then have "wd' = wd2" using assms(1) fl None cl by (simp add: rotateSegment_def)
      with file_Close_Some(1) [OF cl [unfolded Some]] old1
      have "calls wd' = calls wd1 \<or> calls wd' = calls wd1 @ [CallClose ?old]" by simp
      then show ?thesis
      proof
        assume "calls wd' = calls wd1"
        then show ?thesis using c1
          by (intro exI [of _ ?fl] exI [of _ "[CallClose ?old, CallOpenFile ?new]"]) simp
      next
        assume "calls wd' = calls wd1 @ [CallClose ?old]"
        then show ?thesis using c1
          by (intro exI [of _ "?fl @ [CallClose ?old]"] exI [of _ "[CallOpenFile ?new]"]) simp
      qed
    next
      case n2: None
      note C = file_Close_None [OF cl [unfolded n2]]
      have c2: "calls wd2 = calls wd @ ?fl @ [CallClose ?old]" using C(4) c1 old1 by simp
      let ?w2 = "w1\<lparr>currentSegment := f, currentSegmentIndex := currentSegmentIndex w1 + 1\<rparr>"
      obtain path wd3 where sn: "segmentFileName (directory ?w2) (currentSegmentIndex ?w2) wd2 = (path, wd3)"
        by (cases "segmentFileName (directory ?w2) (currentSegmentIndex ?w2) wd2") auto
      have ok2: "cache_ok (segmentNameCache wd2)" using assms(2) F(6) C(5) by simp
      from segmentFileName_ok(1,5) [OF ok2, of "directory ?w2" "currentSegmentIndex ?w2"] sn
      have p: "path = ?new" and c3: "calls wd3 = calls wd2" using F(1) by simp_all
      obtain r3 wd4 where op: "os_OpenFile path wd3 = (r3, wd4)"
        by (cases "os_OpenFile path wd3") auto
      have "wd' = wd4"
        using assms(1) fl None cl n2 sn op
        by (cases r3) (simp_all add: rotateSegment_def Let_def)
      then have "calls wd' = calls wd @ ?fl @ [CallClose ?old, CallOpenFile ?new]"
        using os_OpenFile_calls [OF op] c3 c2 p by simp
      then show ?thesis
        by (intro exI [of _ "?fl @ [CallClose ?old, CallOpenFile ?new]"] exI [of _ "[]"]) simp
    qed
  qed
qed

section \<open>The segment namer\<close>

text \<open>
  Claim C8. For every directory and index, \<open>segmentFileName\<close> returns the directory
  joined (\<^verbatim>\<open>filepath.Join\<close>) with the prefix \<^verbatim>\<open>wal_\<close>, the decimal index and the suffix
  \<^verbatim>\<open>.log\<close>, and the cache never changes a result: in any run of calls that starts from the
  empty cache of a fresh process, every call, first or repeated, returns that path.
\<close>

theorem segmentFileName_deterministic:
  "fst (segmentFileNames cs (wd\<lparr>segmentNameCache := Map.empty\<rparr>))
     = map (\<lambda>(d, i). Join d (''wal_'' @ showInt (sint i) @ ''.log'')) cs"
proof -
  have "cache_ok (segmentNameCache (wd\<lparr>segmentNameCache := Map.empty\<rparr>))"
    by (simp add: cache_ok_empty)
  then have "fst (segmentFileNames cs (wd\<lparr>segmentNameCache := Map.empty\<rparr>))
     = map (\<lambda>(d, i). segmentPath d i) cs"
    by (rule segmentFileNames_ok)
  then show ?thesis
    by (simp add: segmentPath_def segmentPrefix_def fmt_d_def)
qed

lemma Join_examples:
  "Join ''wal_data'' ''wal_1.log'' = ''wal_data/wal_1.log''"
  "Join ''wal_data'' ''wal_12.log'' = ''wal_data/wal_12.log''"
  "Join ''a//b/../c/'' ''wal_-3.log'' = ''a/c/wal_-3.log''"
  by (simp_all add: Join_def Clean_def cleanStep_def)

lemma showInt_examples:
  "showInt 1 = ''1''" "showInt 12 = ''12''" "showInt (- 3) = ''-3''"
  by (simp_all add: showInt_def showNat.simps)

theorem segmentFileName_deterministic_witness:
  "fst (segmentFileNames [(''wal_data'', 1), (''wal_data'', 12), (''a//b/../c/'', - 3),
                          (''wal_data'', 1)]
         (freshWorld\<lparr>segmentNameCache := Map.empty\<rparr>))
     = [''wal_data/wal_1.log'', ''wal_data/wal_12.log'', ''a/c/wal_-3.log'',
        ''wal_data/wal_1.log'']"
  using segmentFileName_deterministic
    [of "[(''wal_data'', 1), (''wal_data'', 12), (''a//b/../c/'', - 3), (''wal_data'', 1)]"
        freshWorld]
  by (simp add: Join_examples showInt_examples)

section \<open>The segment locator\<close>


lemmas entryIndex_eval =
  entryIndex_def HasPrefix_def TrimPrefix_def TrimSuffix_def HasSuffix_def
  segmentPrefix_def Atoi_def parseDigits_def isDigit_def digitVal_def






lemma os_MkdirAll_None:
  assumes "os_MkdirAll p wd = (None, wd1)"
  shows "segmentNameCache wd1 = segmentNameCache wd"
    and "map_of (fs wd1) q = (if q = p \<and> map_of (fs wd) p = None then Some Dir else map_of (fs wd) q)"
  using assms
  by (auto simp: os_MkdirAll_def map_of_putNode dest!: syscall_effect
           split: if_splits prod.splits bool.splits option.splits node.splits)

lemma os_ReadDir_effect:
  "os_ReadDir d wd = (r, wd1) \<Longrightarrow> fs wd1 = fs wd \<and> segmentNameCache wd1 = segmentNameCache wd"
  by (auto simp: os_ReadDir_def dest!: syscall_effect
           split: if_splits prod.splits bool.splits option.splits node.splits)

lemma findLastSegemtIndex_effect:
  assumes "findLastSegemtIndex d wd = (r, wd1)"
  shows "fs wd1 = fs wd" and "segmentNameCache wd1 = segmentNameCache wd"
proof -
  obtain x wd2 where rd: "os_ReadDir d wd = (x, wd2)" by (cases "os_ReadDir d wd") auto
  then have "wd1 = wd2" using assms
    by (auto simp: findLastSegemtIndex_def Let_def split: sum.splits if_splits)
  then show "fs wd1 = fs wd" "segmentNameCache wd1 = segmentNameCache wd"
    using os_ReadDir_effect [OF rd] by simp_all
qed

lemma newWriteAheadLOG_Inr:
  assumes "newWriteAheadLOG wd = (Inr w, wd')"
  shows "\<exists>wd1 wd2 wd3 wd4 n.
           os_MkdirAll walDir wd = (None, wd1)
         \<and> findLastSegemtIndex walDir wd1 = ((currentSegmentIndex w, None), wd2)
         \<and> segmentFileName walDir (currentSegmentIndex w) wd2 = (fname (currentSegment w), wd3)
         \<and> os_OpenFile (fname (currentSegment w)) wd3 = (Inr (currentSegment w), wd4)
         \<and> file_Stat (currentSegment w) wd4 = (Inr n, wd')
         \<and> w = \<lparr>directory = walDir, currentSegment = \<lparr>fname = fname (currentSegment w), closed = False\<rparr>,
                 writer = NewWriterSize, currentSegmentIndex = currentSegmentIndex w,
                 offset = 1 + word_of_nat n, encoderErr = None\<rparr>"
proof -
  obtain wd1 where mk: "os_MkdirAll walDir wd = (None, wd1)"
    using assms by (auto simp: newWriteAheadLOG_def split: prod.splits option.splits)
  obtain i wd2 where fl: "findLastSegemtIndex walDir wd1 = ((i, None), wd2)"
    using assms mk by (auto simp: newWriteAheadLOG_def split: prod.splits option.splits)
  obtain path wd3 where sn: "segmentFileName walDir i wd2 = (path, wd3)"
    by (cases "segmentFileName walDir i wd2") auto
  obtain f wd4 where op: "os_OpenFile path wd3 = (Inr f, wd4)"
    using assms mk fl sn by (auto simp: newWriteAheadLOG_def split: prod.splits option.splits sum.splits)
  obtain off where co: "calculateOffset f wd4 = (Inr off, wd')"
    and w: "w = \<lparr>directory = walDir, currentSegment = f, writer = NewWriterSize,
                currentSegmentIndex = i, offset = 1 + off, encoderErr = None\<rparr>"
    using assms mk fl sn op
    by (auto simp: newWriteAheadLOG_def split: prod.splits option.splits sum.splits)
  obtain n where st: "file_Stat f wd4 = (Inr n, wd')" and off: "off = word_of_nat n"
    using co by (auto simp: calculateOffset_def split: prod.splits sum.splits)
  have f: "f = \<lparr>fname = path, closed = False\<rparr>" by (rule os_OpenFile_Inr(1) [OF op])
  show ?thesis using mk fl sn op st off w f by auto
qed

section \<open>Opening the engine\<close>

text \<open>
  Claim C6. \<open>newWriteAheadLOG\<close> takes the initial offset from the byte size of the segment
  file it resumes, not from a count of its records: the offset is \<open>1 +\<close> the size of that
  file, hence 1 for a file that is empty or did not exist before. The resumed file is the
  one the namer gives for the index the locator found.
\<close>

theorem newWriteAheadLOG_offset_from_size:
  assumes "newWriteAheadLOG wd = (Inr w, wd')"
  shows "offset w = 1 + word_of_nat (case map_of (fs wd) (fname (currentSegment w)) of
                                       Some (File c s) \<Rightarrow> length c | _ \<Rightarrow> 0)
       \<and> (\<exists>c s. map_of (fs wd') (fname (currentSegment w)) = Some (File c s)
                \<and> offset w = 1 + word_of_nat (length c))
       \<and> currentSegmentIndex w = fst (fst (findLastSegemtIndex walDir (snd (os_MkdirAll walDir wd))))
       \<and> (cache_ok (segmentNameCache wd) \<longrightarrow>
            fname (currentSegment w) = segmentPath walDir (currentSegmentIndex w))"
proof -
  let ?p = "fname (currentSegment w)"
  from newWriteAheadLOG_Inr [OF assms] obtain wd1 wd2 wd3 wd4 n where
    mk: "os_MkdirAll walDir wd = (None, wd1)"
    and fl: "findLastSegemtIndex walDir wd1 = ((currentSegmentIndex w, None), wd2)"
    and sn: "segmentFileName walDir (currentSegmentIndex w) wd2 = (?p, wd3)"
    and op: "os_OpenFile ?p wd3 = (Inr (currentSegment w), wd4)"
    and st: "file_Stat (currentSegment w) wd4 = (Inr n, wd')"
    and w: "offset w = 1 + word_of_nat n"
    by (metis WAL.select_convs(5))
  note M = os_MkdirAll_None [OF mk]
  note L = findLastSegemtIndex_effect [OF fl]
  have sn_fs: "fs wd3 = fs wd2"
    using sn by (auto simp: segmentFileName_def Let_def split: option.splits)
  note O = os_OpenFile_Inr [OF op]
  note S = file_Stat_Inr [OF st] file_Stat_effect [OF st]
  have fs3: "map_of (fs wd3) ?p = (if ?p = walDir \<and> map_of (fs wd) walDir = None then Some Dir
                                    else map_of (fs wd) ?p)"
    using M(2) [of ?p] L(1) sn_fs by simp
  from S(2) obtain c s where c: "map_of (fs wd4) ?p = Some (File c s)" "n = length c" by blast
  have c': "map_of (fs wd') ?p = Some (File c s)" using c(1) S(4) by simp
  have size: "length c = (case map_of (fs wd) ?p of Some (File c s) \<Rightarrow> length c | _ \<Rightarrow> 0)"
    using O(4)
  proof
    assume "\<exists>c s. map_of (fs wd3) ?p = Some (File c s) \<and> fs wd4 = fs wd3"
    then have "map_of (fs wd3) ?p = Some (File c s)" using c(1) by auto
    then have "map_of (fs wd) ?p = Some (File c s)" using fs3 by (auto split: if_splits)
    then show ?thesis by simp
  next
    assume a: "map_of (fs wd3) ?p = None \<and> map_of (fs wd4) = (map_of (fs wd3))(?p \<mapsto> File [] [])"
    then have "c = []" using c(1) by simp
    moreover have "map_of (fs wd) ?p = None" using a fs3 by (auto split: if_splits)
    ultimately show ?thesis by simp
  qed
  have idx: "currentSegmentIndex w = fst (fst (findLastSegemtIndex walDir (snd (os_MkdirAll walDir wd))))"
    using mk fl by simp
  have path: "cache_ok (segmentNameCache wd) \<longrightarrow> ?p = segmentPath walDir (currentSegmentIndex w)"
  proof
    assume "cache_ok (segmentNameCache wd)"
    then have "cache_ok (segmentNameCache wd2)" using M(1) L(2) by simp
    from segmentFileName_ok(1) [OF this, of walDir "currentSegmentIndex w"] sn
    show "?p = segmentPath walDir (currentSegmentIndex w)" by simp
  qed
  show ?thesis using w c(2) size c' idx path by auto
qed

lemma fmt_d_examples:
  "fmt_d 1 = ''1''" "fmt_d 2 = ''2''" "fmt_d 3 = ''3''" "fmt_d 4 = ''4''" "fmt_d 5 = ''5''"
  "fmt_d 6 = ''6''"
  by (simp_all add: fmt_d_def showInt_def showNat.simps)


lemma newWriteAheadLOG_fresh: "newWriteAheadLOG freshWorld = (Inr freshWAL, openedWorld)"
  by (simp add: newWriteAheadLOG_def os_MkdirAll_def syscall_def freshWorld_def walDir_def
        findLastSegemtIndex_def os_ReadDir_def children_def isChild_def
        segmentFileName_def Let_def fmt_d_examples segmentPrefix_def Join_def Clean_def cleanStep_def
        os_OpenFile_def parentDir_def calculateOffset_def file_Stat_def
        NewWriterSize_def freshWAL_def openedWorld_def)

lemma newWriteAheadLOG_resumed: "newWriteAheadLOG segmentsWorld = (Inr resumedWAL, resumedWorld)"
  by (simp add: newWriteAheadLOG_def os_MkdirAll_def syscall_def segmentsWorld_def freshWorld_def
        walDir_def findLastSegemtIndex_def os_ReadDir_def children_def isChild_def
        entryIndex_eval word_sless_alt
        segmentFileName_def Let_def fmt_d_examples Join_def Clean_def cleanStep_def
        os_OpenFile_def parentDir_def calculateOffset_def file_Stat_def
        NewWriterSize_def resumedWAL_def resumedWorld_def)

theorem newWriteAheadLOG_offset_from_size_witness:
  "newWriteAheadLOG segmentsWorld = (Inr resumedWAL, resumedWorld)
   \<and> map_of (fs segmentsWorld) (fname (currentSegment resumedWAL)) = Some (File ''abc'' ''abc'')
   \<and> offset resumedWAL = 1 + word_of_nat (length ''abc'')
   \<and> cache_ok (segmentNameCache segmentsWorld)
   \<and> fname (currentSegment resumedWAL) = segmentPath walDir 5"
proof -
  note t = newWriteAheadLOG_offset_from_size [OF newWriteAheadLOG_resumed]
  have p: "fname (currentSegment resumedWAL) = ''wal_data/wal_5.log''"
    by (simp add: resumedWAL_def)
  have f: "map_of (fs segmentsWorld) ''wal_data/wal_5.log'' = Some (File ''abc'' ''abc'')"
    by (simp add: segmentsWorld_def freshWorld_def)
  have c: "cache_ok (segmentNameCache segmentsWorld)"
    by (simp add: segmentsWorld_def freshWorld_def cache_ok_empty)
  have i: "currentSegmentIndex resumedWAL = 5"
    by (simp add: resumedWAL_def)
  have o: "offset resumedWAL = 1 + word_of_nat (length ''abc'')"
    using t p f by simp
  have n: "fname (currentSegment resumedWAL) = segmentPath walDir 5"
    using t c i by simp
  show ?thesis using newWriteAheadLOG_resumed p f c o n by simp
qed

lemma rotateSegment_old_file:
  assumes "rotateSegment w wd = (None, w', wd')" and "buf (writer w) = []"
      and "map_of (fs wd) (fname (currentSegment w)) = Some (File c c)"
  shows "map_of (fs wd') (fname (currentSegment w)) = Some (File c c)"
  using rotateSegment_None(3) [OF assms(1)] assms(2,3) by auto

lemma WriteLog_written:
  assumes "WriteLog topic payload w wd = (None, w', wd')"
  shows "\<exists>line c s.
       marshalEntry \<lparr>Offset = offset w, Topic = topic, Payload = payload\<rparr> = Some line
     \<and> map_of (fs wd) (fname (currentSegment w)) = Some (File c s)
     \<and> map_of (fs wd') (fname (currentSegment w)) =
         Some (File (c @ buf (writer w) @ line) (c @ buf (writer w) @ line))"
proof -
  let ?old = "fname (currentSegment w)"
  let ?w3 = "w\<lparr>writer := NewWriterSize, offset := offset w + 1\<rparr>"
  from WriteLog_None [OF assms] obtain line c s ws wd3 where
    m: "marshalEntry \<lparr>Offset = offset w, Topic = topic, Payload = payload\<rparr> = Some line"
    and c: "map_of (fs wd) ?old = Some (File c s)"
    and fs3: "map_of (fs wd3) = (map_of (fs wd))(?old \<mapsto>
           File (c @ buf (writer w) @ line) (c @ buf (writer w) @ line))"
    and fin: "if maxSegmentSize \<le> length (c @ buf (writer w) @ line)
        then rotateSegment ?w3 wd3 = (None, w', wd')
        else w' = ?w3 \<and> wd' = wd3"
    by blast
  let ?c' = "c @ buf (writer w) @ line"
  have "map_of (fs wd') ?old = Some (File ?c' ?c')"
  proof (cases "maxSegmentSize \<le> length ?c'")
    case False
    then show ?thesis using fin fs3 by simp
  next
    case True
    then have rot: "rotateSegment ?w3 wd3 = (None, w', wd')" using fin by simp
    have "map_of (fs wd3) (fname (currentSegment ?w3)) = Some (File ?c' ?c')"
      using fs3 by simp
    from rotateSegment_old_file [OF rot _ this] show ?thesis
      by (simp add: NewWriterSize_def)
  qed
  then show ?thesis using m c by blast
qed

lemma WriteLog_error_shapes:
  assumes "WriteLog topic payload w wd = (Some err, w', wd')"
  shows "(\<exists>e. err = Errorf ''failed to encode log entry'' e)
       \<or> (\<exists>e. err = Errorf ''failed to flush log entry'' (Errorf ''failed to flush writer'' e))
       \<or> (\<exists>e. err = Errorf ''failed to flush log entry'' (Errorf ''failed to sync segment file'' e))
       \<or> (\<exists>e. err = Errorf ''failed to get file info'' e)
       \<or> (\<exists>e. err = Errorf ''failed to rotate segment'' e)"
proof -
  let ?entry = "\<lparr>Offset = offset w, Topic = topic, Payload = payload\<rparr>"
  obtain r1 w1 wd1 where en: "Encode ?entry w wd = (r1, w1, wd1)"
    by (cases "Encode ?entry w wd") auto
  show ?thesis
  proof (cases r1)
    case (Some e)
    then show ?thesis using assms en by (auto simp: WriteLog_def)
  next
    case None
    obtain r2 w2 wd2 where fl: "FlushE w1 wd1 = (r2, w2, wd2)"
      by (cases "FlushE w1 wd1") auto
    show ?thesis
    proof (cases r2)
      case (Some e)
      then have "(\<exists>x. e = Errorf ''failed to flush writer'' x)
               \<or> (\<exists>x. e = Errorf ''failed to sync segment file'' x)"
        using fl by (auto simp: FlushE_def split: prod.splits option.splits)
      moreover have "err = Errorf ''failed to flush log entry'' e"
        using assms en None fl Some by (simp add: WriteLog_def)
      ultimately show ?thesis by auto
    next
      case n2: None
      show ?thesis
        using assms en None fl n2
        by (auto simp: WriteLog_def Let_def split: prod.splits option.splits sum.splits if_splits)
    qed
  qed
qed

lemma WriteLog_encode_failure:
  assumes "WriteLog topic payload w wd = (Some err, w', wd')"
      and "Encode \<lparr>Offset = offset w, Topic = topic, Payload = payload\<rparr> w wd = (Some e, w1, wd1)"
  shows "err = Errorf ''failed to encode log entry'' e" and "w' = w1" and "wd' = wd1"
  using assms by (simp_all add: WriteLog_def)

lemma WriteLog_flush_failure:
  assumes "WriteLog topic payload w wd = (Some err, w', wd')"
      and "Encode \<lparr>Offset = offset w, Topic = topic, Payload = payload\<rparr> w wd = (None, w1, wd1)"
      and "FlushE w1 wd1 = (Some e, w2, wd2)"
  shows "err = Errorf ''failed to flush log entry'' e" and "w' = w2" and "wd' = wd2"
  using assms by (simp_all add: WriteLog_def)

lemma WriteLog_early_failure_state:
  assumes "WriteLog topic payload w wd = (Some err, w', wd')"
      and "err = Errorf ''failed to encode log entry'' e \<or> err = Errorf ''failed to flush log entry'' e"
  shows "offset w' = offset w \<and> currentSegmentIndex w' = currentSegmentIndex w
       \<and> currentSegment w' = currentSegment w
       \<and> (\<exists>cs. calls wd' = calls wd @ cs \<and> dataCalls cs)"
proof -
  let ?entry = "\<lparr>Offset = offset w, Topic = topic, Payload = payload\<rparr>"
  obtain r1 w1 wd1 where en: "Encode ?entry w wd = (r1, w1, wd1)"
    by (cases "Encode ?entry w wd") auto
  note E = Encode_effect [OF en]
  show ?thesis
  proof (cases r1)
    case (Some x)
    then have "w' = w1" "wd' = wd1" using assms(1) en by (simp_all add: WriteLog_def)
    then show ?thesis using E by simp
  next
    case None
    obtain r2 w2 wd2 where fl: "FlushE w1 wd1 = (r2, w2, wd2)"
      by (cases "FlushE w1 wd1") auto
    note F = FlushE_effect [OF fl]
    show ?thesis
    proof (cases r2)
      case (Some x)
      then have "w' = w2" "wd' = wd2" using assms(1) en None fl by (simp_all add: WriteLog_def)
      then show ?thesis using E(1-4) F(1-4) dataCalls_trans [OF E(5) F(5)] by simp
    next
      case n2: None
      have "False"
        using assms en None fl n2
        by (auto simp: WriteLog_def Let_def split: prod.splits option.splits sum.splits if_splits)
      then show ?thesis ..
    qed
  qed
qed

section \<open>Failures of an append\<close>

text \<open>
  Claim C7. When \<open>WriteLog\<close> fails, the error names the step that failed: encoding, flushing
  the writer, syncing the file, reading the file size, or rotating. A failure of \<open>Encode\<close>
  is reported as the encode error and a failure of \<open>FlushE\<close> (flush or fsync) as the flush
  error. After an encode, flush or fsync failure the offset counter, the segment index and
  the current segment handle are what they were before the call, so the next append uses
  the same offset; and the only system calls made were writes and syncs: nothing was
  closed or opened, so no rotation was attempted.
\<close>

theorem WriteLog_failure_before_commit:
  assumes "WriteLog topic payload w wd = (Some err, w', wd')"
  shows "((\<exists>e. err = Errorf ''failed to encode log entry'' e)
          \<or> (\<exists>e. err = Errorf ''failed to flush log entry'' (Errorf ''failed to flush writer'' e))
          \<or> (\<exists>e. err = Errorf ''failed to flush log entry'' (Errorf ''failed to sync segment file'' e))
          \<or> (\<exists>e. err = Errorf ''failed to get file info'' e)
          \<or> (\<exists>e. err = Errorf ''failed to rotate segment'' e))
       \<and> (\<forall>e w1 wd1. Encode \<lparr>Offset = offset w, Topic = topic, Payload = payload\<rparr> w wd = (Some e, w1, wd1)
              \<longrightarrow> err = Errorf ''failed to encode log entry'' e)
       \<and> (\<forall>e w1 wd1 w2 wd2.
              Encode \<lparr>Offset = offset w, Topic = topic, Payload = payload\<rparr> w wd = (None, w1, wd1)
              \<and> FlushE w1 wd1 = (Some e, w2, wd2)
              \<longrightarrow> err = Errorf ''failed to flush log entry'' e)
       \<and> ((\<exists>e. err = Errorf ''failed to encode log entry'' e
               \<or> err = Errorf ''failed to flush log entry'' e) \<longrightarrow>
            offset w' = offset w \<and> currentSegmentIndex w' = currentSegmentIndex w
            \<and> currentSegment w' = currentSegment w
            \<and> (\<exists>cs. calls wd' = calls wd @ cs \<and> dataCalls cs
                    \<and> (\<forall>c \<in> set cs. \<forall>p. c \<noteq> CallClose p \<and> c \<noteq> CallOpenFile p)))"
proof (intro conjI allI impI)
  show "(\<exists>e. err = Errorf ''failed to encode log entry'' e)
          \<or> (\<exists>e. err = Errorf ''failed to flush log entry'' (Errorf ''failed to flush writer'' e))
          \<or> (\<exists>e. err = Errorf ''failed to flush log entry'' (Errorf ''failed to sync segment file'' e))
          \<or> (\<exists>e. err = Errorf ''failed to get file info'' e)
          \<or> (\<exists>e. err = Errorf ''failed to rotate segment'' e)"
    by (rule WriteLog_error_shapes [OF assms])
next
  fix e w1 wd1
  assume "Encode \<lparr>Offset = offset w, Topic = topic, Payload = payload\<rparr> w wd = (Some e, w1, wd1)"
  then show "err = Errorf ''failed to encode log entry'' e"
    by (rule WriteLog_encode_failure(1) [OF assms])
next
  fix e w1 wd1 w2 wd2
  assume "Encode \<lparr>Offset = offset w, Topic = topic, Payload = payload\<rparr> w wd = (None, w1, wd1)
              \<and> FlushE w1 wd1 = (Some e, w2, wd2)"
  then show "err = Errorf ''failed to flush log entry'' e"
    using WriteLog_flush_failure(1) [OF assms] by blast
next
  assume "\<exists>e. err = Errorf ''failed to encode log entry'' e
               \<or> err = Errorf ''failed to flush log entry'' e"
  then obtain e where e: "err = Errorf ''failed to encode log entry'' e
               \<or> err = Errorf ''failed to flush log entry'' e" by blast
  note S = WriteLog_early_failure_state [OF assms e]
  show "offset w' = offset w" "currentSegmentIndex w' = currentSegmentIndex w"
    "currentSegment w' = currentSegment w" using S by simp_all
  from S obtain cs where cs: "calls wd' = calls wd @ cs" "dataCalls cs" by blast
  then have "\<forall>c \<in> set cs. \<forall>p. c \<noteq> CallClose p \<and> c \<noteq> CallOpenFile p"
    using dataCalls_no_rotation by blast
  then show "\<exists>cs. calls wd' = calls wd @ cs \<and> dataCalls cs
                    \<and> (\<forall>c \<in> set cs. \<forall>p. c \<noteq> CallClose p \<and> c \<noteq> CallOpenFile p)"
    using cs by blast
qed

lemmas engine_eval =
  WriteLog_def Encode_def FlushE_def rotateSegment_def bufio_Write_def bufio_Flush_def
  directWrite_def file_Write_def file_Sync_def file_Stat_def file_Close_def os_OpenFile_def
  syscall_def segmentFileName_def marshalEntry_def marshalPayload_def jsonString_def
  escapeChar_def NewWriterSize_def bufferSize_def maxSegmentSize_def Let_def parentDir_def
  Join_def Clean_def cleanStep_def segmentPrefix_def fmt_d_examples

lemma WriteLog_flush_fault:
  "WriteLog ''orders'' smallPayload freshWAL (openedWorld\<lparr>faults := [True]\<rparr>) =
     (Some (Errorf ''failed to flush log entry'' (Errorf ''failed to flush writer'' IOFailure)),
      freshWAL\<lparr>writer := \<lparr>buf = orderLine 1, werr = Some IOFailure\<rparr>\<rparr>,
      openedWorld\<lparr>calls := calls openedWorld @ [CallWrite ''wal_data/wal_1.log'' (orderLine 1)]\<rparr>)"
  by (simp add: engine_eval freshWAL_def openedWorld_def smallPayload_def orderLine_def)

lemma WriteLog_first:
  "WriteLog ''orders'' smallPayload freshWAL openedWorld =
     (None, freshWAL\<lparr>offset := 2\<rparr>, appendedWorld)"
  by (simp add: engine_eval freshWAL_def openedWorld_def appendedWorld_def smallPayload_def
        orderLine_def)

lemma WriteLog_stat_fault:
  "WriteLog ''orders'' smallPayload freshWAL (openedWorld\<lparr>faults := [False, False, True]\<rparr>) =
     (Some (Errorf ''failed to get file info'' IOFailure), freshWAL, appendedWorld)"
  by (simp add: engine_eval freshWAL_def openedWorld_def appendedWorld_def smallPayload_def
        orderLine_def)

lemma WriteLog_after_stat_fault:
  "WriteLog ''orders'' smallPayload freshWAL appendedWorld =
     (None, freshWAL\<lparr>offset := 2\<rparr>,
      appendedWorld
        \<lparr>fs := [(''wal_data'', Dir),
                (''wal_data/wal_1.log'',
                 File (orderLine 1 @ orderLine 1) (orderLine 1 @ orderLine 1))],
         calls := calls appendedWorld @
                  [CallWrite ''wal_data/wal_1.log'' (orderLine 1),
                   CallSync ''wal_data/wal_1.log'', CallStat ''wal_data/wal_1.log'']\<rparr>)"
  by (simp add: engine_eval freshWAL_def openedWorld_def appendedWorld_def smallPayload_def
        orderLine_def)

lemma WriteLog_big:
  "WriteLog ''orders'' bigPayload freshWAL openedWorld = (None, rotatedWAL, rotatedWorld)"
  by (simp add: engine_eval freshWAL_def openedWorld_def rotatedWAL_def rotatedWorld_def
        bigPayload_def bigObject_def bigLine_def)

lemma WriteLog_after_rotation:
  "WriteLog ''orders'' smallPayload rotatedWAL rotatedWorld =
     (None, rotatedWAL\<lparr>offset := 4\<rparr>,
      rotatedWorld
        \<lparr>fs := [(''wal_data'', Dir),
                (''wal_data/wal_1.log'', File (bigLine 1) (bigLine 1)),
                (''wal_data/wal_2.log'', File (orderLine 3) (orderLine 3))],
         calls := calls rotatedWorld @
                  [CallWrite ''wal_data/wal_2.log'' (orderLine 3),
                   CallSync ''wal_data/wal_2.log'', CallStat ''wal_data/wal_2.log'']\<rparr>)"
  by (simp add: engine_eval freshWAL_def openedWorld_def rotatedWAL_def rotatedWorld_def
        smallPayload_def orderLine_def)

lemma WriteLog_unencodable:
  "WriteLog ''orders'' Unencodable freshWAL openedWorld =
     (Some (Errorf ''failed to encode log entry'' UnsupportedValue), freshWAL, openedWorld)"
  by (simp add: engine_eval freshWAL_def)

lemma WriteLog_sync_fault:
  "WriteLog ''orders'' smallPayload freshWAL (openedWorld\<lparr>faults := [False, True]\<rparr>) =
     (Some (Errorf ''failed to flush log entry'' (Errorf ''failed to sync segment file'' IOFailure)),
      freshWAL,
      openedWorld\<lparr>fs := [(''wal_data'', Dir), (''wal_data/wal_1.log'', File (orderLine 1) [])],
                  calls := calls openedWorld @ [CallWrite ''wal_data/wal_1.log'' (orderLine 1),
                                                CallSync ''wal_data/wal_1.log'']\<rparr>)"
  by (simp add: engine_eval freshWAL_def openedWorld_def smallPayload_def orderLine_def)

theorem WriteLog_failure_before_commit_witness:
  "WriteLog ''orders'' Unencodable freshWAL openedWorld =
     (Some (Errorf ''failed to encode log entry'' UnsupportedValue), freshWAL, openedWorld)
   \<and> WriteLog ''orders'' smallPayload freshWAL (openedWorld\<lparr>faults := [True]\<rparr>) =
     (Some (Errorf ''failed to flush log entry'' (Errorf ''failed to flush writer'' IOFailure)),
      freshWAL\<lparr>writer := \<lparr>buf = orderLine 1, werr = Some IOFailure\<rparr>\<rparr>,
      openedWorld\<lparr>calls := calls openedWorld @ [CallWrite ''wal_data/wal_1.log'' (orderLine 1)]\<rparr>)
   \<and> offset (freshWAL\<lparr>writer := \<lparr>buf = orderLine 1, werr = Some IOFailure\<rparr>\<rparr>) = offset freshWAL
   \<and> currentSegmentIndex (freshWAL\<lparr>writer := \<lparr>buf = orderLine 1, werr = Some IOFailure\<rparr>\<rparr>)
       = currentSegmentIndex freshWAL
   \<and> fst (WriteLog ''orders'' smallPayload freshWAL (openedWorld\<lparr>faults := [False, True]\<rparr>)) =
       Some (Errorf ''failed to flush log entry'' (Errorf ''failed to sync segment file'' IOFailure))
   \<and> offset (fst (snd (WriteLog ''orders'' smallPayload freshWAL
                          (openedWorld\<lparr>faults := [False, True]\<rparr>)))) = offset freshWAL"
  using WriteLog_failure_before_commit [OF WriteLog_unencodable]
        WriteLog_failure_before_commit [OF WriteLog_flush_fault]
        WriteLog_failure_before_commit [OF WriteLog_sync_fault]
        WriteLog_unencodable WriteLog_flush_fault WriteLog_sync_fault
  by simp

lemma WriteLog_stat_failure:
  assumes "WriteLog topic payload w wd = (Some (Errorf ''failed to get file info'' e), w', wd')"
  shows "\<exists>line c s.
       marshalEntry \<lparr>Offset = offset w, Topic = topic, Payload = payload\<rparr> = Some line
     \<and> map_of (fs wd) (fname (currentSegment w)) = Some (File c s)
     \<and> map_of (fs wd') (fname (currentSegment w)) =
         Some (File (c @ buf (writer w) @ line) (c @ buf (writer w) @ line))"
    and "w' = w\<lparr>writer := NewWriterSize\<rparr>"
proof -
  let ?entry = "\<lparr>Offset = offset w, Topic = topic, Payload = payload\<rparr>"
  obtain r1 w1 wd1 where en: "Encode ?entry w wd = (r1, w1, wd1)"
    by (cases "Encode ?entry w wd") auto
  have r1: "r1 = None"
    using assms en by (cases r1) (auto simp: WriteLog_def)
  obtain r2 w2 wd2 where fl: "FlushE w1 wd1 = (r2, w2, wd2)"
    by (cases "FlushE w1 wd1") auto
  have r2: "r2 = None"
    using assms en r1 fl by (cases r2) (auto simp: WriteLog_def)
  note K = commit [OF en [unfolded r1] fl [unfolded r2]]
  obtain r3 wd3 where st: "file_Stat (currentSegment w2) wd2 = (r3, wd3)"
    by (cases "file_Stat (currentSegment w2) wd2") auto
  have "w' = w2 \<and> wd' = wd3"
    using assms en r1 fl r2 st
    by (cases r3) (auto simp: WriteLog_def Let_def split: if_splits prod.splits option.splits)
  then have w': "w' = w2" and wd': "wd' = wd3" by simp_all
  show "w' = w\<lparr>writer := NewWriterSize\<rparr>" using w' K(2) by simp
  have "fs wd' = fs wd2" using file_Stat_effect(1) [OF st] wd' by simp
  then show "\<exists>line c s.
       marshalEntry ?entry = Some line
     \<and> map_of (fs wd) (fname (currentSegment w)) = Some (File c s)
     \<and> map_of (fs wd') (fname (currentSegment w)) =
         Some (File (c @ buf (writer w) @ line) (c @ buf (writer w) @ line))"
    using K(1) by auto
qed

section \<open>A failed size check\<close>

text \<open>
  Claim C10. When the read of the file size fails, after the entry was flushed and synced,
  \<open>WriteLog\<close> returns an error although the record is on disk, and the offset counter is
  not advanced: the next successful \<open>WriteLog\<close> writes a second record that carries the
  same offset, right after the first.
\<close>

theorem WriteLog_stat_failure_reuses_offset:
  assumes "WriteLog topic payload w wd = (Some (Errorf ''failed to get file info'' e), w', wd')"
  shows "\<exists>line c s.
       marshalEntry \<lparr>Offset = offset w, Topic = topic, Payload = payload\<rparr> = Some line
     \<and> map_of (fs wd) (fname (currentSegment w)) = Some (File c s)
     \<and> map_of (fs wd') (fname (currentSegment w)) =
         Some (File (c @ buf (writer w) @ line) (c @ buf (writer w) @ line))
     \<and> offset w' = offset w \<and> currentSegment w' = currentSegment w
     \<and> (\<forall>topic2 payload2 w2 wd2.
           WriteLog topic2 payload2 w' wd' = (None, w2, wd2) \<longrightarrow>
           (\<exists>line2.
              marshalEntry \<lparr>Offset = offset w, Topic = topic2, Payload = payload2\<rparr> = Some line2
            \<and> map_of (fs wd2) (fname (currentSegment w)) =
                Some (File (c @ buf (writer w) @ line @ line2)
                           (c @ buf (writer w) @ line @ line2))))"
proof -
  note S = WriteLog_stat_failure [OF assms]
  from S(1) obtain line c s where L:
    "marshalEntry \<lparr>Offset = offset w, Topic = topic, Payload = payload\<rparr> = Some line"
    "map_of (fs wd) (fname (currentSegment w)) = Some (File c s)"
    "map_of (fs wd') (fname (currentSegment w)) =
         Some (File (c @ buf (writer w) @ line) (c @ buf (writer w) @ line))" by blast
  have w': "offset w' = offset w" "currentSegment w' = currentSegment w" "buf (writer w') = []"
    using S(2) by (simp_all add: NewWriterSize_def)
  have next_one: "\<exists>line2.
              marshalEntry \<lparr>Offset = offset w, Topic = topic2, Payload = payload2\<rparr> = Some line2
            \<and> map_of (fs wd2) (fname (currentSegment w)) =
                Some (File (c @ buf (writer w) @ line @ line2)
                           (c @ buf (writer w) @ line @ line2))"
    if "WriteLog topic2 payload2 w' wd' = (None, w2, wd2)" for topic2 payload2 w2 wd2
    using WriteLog_written [OF that] w' L(3) by auto
  show ?thesis using L w'(1,2) next_one by blast
qed

theorem WriteLog_stat_failure_reuses_offset_witness:
  "WriteLog ''orders'' smallPayload freshWAL (openedWorld\<lparr>faults := [False, False, True]\<rparr>) =
     (Some (Errorf ''failed to get file info'' IOFailure), freshWAL, appendedWorld)
   \<and> map_of (fs appendedWorld) ''wal_data/wal_1.log'' = Some (File (orderLine 1) (orderLine 1))
   \<and> fst (WriteLog ''orders'' smallPayload freshWAL appendedWorld) = None
   \<and> map_of (fs (snd (snd (WriteLog ''orders'' smallPayload freshWAL appendedWorld))))
        ''wal_data/wal_1.log'' = Some (File (orderLine 1 @ orderLine 1) (orderLine 1 @ orderLine 1))"
  using WriteLog_stat_failure_reuses_offset [OF WriteLog_stat_fault]
        WriteLog_stat_fault WriteLog_after_stat_fault
  by (simp add: appendedWorld_def)

section \<open>Offsets across a rotation\<close>

text \<open>
  Claim C1 asks that the offset counter advance by exactly 1 on every successful append,
  also on one that rotates the segment. \<open>rotateSegment\<close> adds 1 to the counter that
  \<open>WriteLog\<close> has already advanced, so an append that rotates advances it by 2. On the
  fresh engine an append of \<open>bigPayload\<close> writes the record with offset 1 into segment 1 and
  rotates; the next append writes its record into segment 2 with offset 3. No record
  carries offset 2.
\<close>

theorem WriteLog_rotation_skips_an_offset:
  "newWriteAheadLOG freshWorld = (Inr freshWAL, openedWorld)
   \<and> offset freshWAL = 1
   \<and> WriteLog ''orders'' bigPayload freshWAL openedWorld = (None, rotatedWAL, rotatedWorld)
   \<and> map_of (fs rotatedWorld) ''wal_data/wal_1.log'' = Some (File (bigLine 1) (bigLine 1))
   \<and> offset rotatedWAL = 3
   \<and> fst (WriteLog ''orders'' smallPayload rotatedWAL rotatedWorld) = None
   \<and> fs (snd (snd (WriteLog ''orders'' smallPayload rotatedWAL rotatedWorld))) =
        [(''wal_data'', Dir),
         (''wal_data/wal_1.log'', File (bigLine 1) (bigLine 1)),
         (''wal_data/wal_2.log'', File (orderLine 3) (orderLine 3))]"
  using newWriteAheadLOG_fresh WriteLog_big WriteLog_after_rotation
  by (simp add: freshWAL_def rotatedWAL_def rotatedWorld_def)

section \<open>Rotation\<close>

text \<open>
  Claim C5. After the write, \<open>WriteLog\<close> reads the size of the current segment. When the
  size is at or above the threshold it rotates, and the system calls show the order: the
  writer is flushed (it is empty at this point, the entry having just been flushed, so the
  flush writes nothing), the old segment is synced and closed, the index becomes the
  previous index plus 1, the file the namer gives for the new index is opened (created if
  missing), and the writer and encoder are reset onto it. Below the threshold the segment
  and its index stay. In both cases the next successful \<open>WriteLog\<close> appends its record to
  the segment that is current after the call: the new one after a rotation.
\<close>

theorem WriteLog_rotates_at_threshold:
  assumes "WriteLog topic payload w wd = (None, w', wd')"
      and "cache_ok (segmentNameCache wd)"
  shows "\<exists>c ws.
       map_of (fs wd') (fname (currentSegment w)) = Some (File c c)
     \<and> writesTo (fname (currentSegment w)) ws
     \<and> (if maxSegmentSize \<le> length c
        then calls wd' = calls wd @ ws @
               [CallSync (fname (currentSegment w)), CallStat (fname (currentSegment w)),
                CallSync (fname (currentSegment w)), CallClose (fname (currentSegment w)),
                CallOpenFile (segmentPath (directory w) (currentSegmentIndex w + 1))]
           \<and> currentSegmentIndex w' = currentSegmentIndex w + 1
           \<and> currentSegment w' =
               \<lparr>fname = segmentPath (directory w) (currentSegmentIndex w + 1), closed = False\<rparr>
           \<and> writer w' = NewWriterSize \<and> encoderErr w' = None
           \<and> (\<exists>c' s'. map_of (fs wd') (segmentPath (directory w) (currentSegmentIndex w + 1))
                          = Some (File c' s'))
        else calls wd' = calls wd @ ws @
               [CallSync (fname (currentSegment w)), CallStat (fname (currentSegment w))]
           \<and> currentSegmentIndex w' = currentSegmentIndex w
           \<and> currentSegment w' = currentSegment w)
     \<and> (\<forall>topic2 payload2 w2 wd2.
           WriteLog topic2 payload2 w' wd' = (None, w2, wd2) \<longrightarrow>
           (\<exists>line c0 s0.
              marshalEntry \<lparr>Offset = offset w', Topic = topic2, Payload = payload2\<rparr> = Some line
            \<and> map_of (fs wd') (fname (currentSegment w')) = Some (File c0 s0)
            \<and> map_of (fs wd2) (fname (currentSegment w')) = Some (File (c0 @ line) (c0 @ line))))"
proof -
  let ?old = "fname (currentSegment w)"
  let ?new = "segmentPath (directory w) (currentSegmentIndex w + 1)"
  let ?w3 = "w\<lparr>writer := NewWriterSize, offset := offset w + 1\<rparr>"
  from WriteLog_None [OF assms(1)] obtain line c s ws wd3 where
    fs3: "map_of (fs wd3) = (map_of (fs wd))(?old \<mapsto>
           File (c @ buf (writer w) @ line) (c @ buf (writer w) @ line))"
    and calls3: "calls wd3 = calls wd @ ws @ [CallSync ?old, CallStat ?old]"
    and ws: "writesTo ?old ws"
    and cache3: "segmentNameCache wd3 = segmentNameCache wd"
    and fin: "if maxSegmentSize \<le> length (c @ buf (writer w) @ line)
        then rotateSegment ?w3 wd3 = (None, w', wd')
        else w' = ?w3 \<and> wd' = wd3"
    by blast
  let ?c = "c @ buf (writer w) @ line"
  have bufw': "buf (writer w') = []"
  proof (cases "maxSegmentSize \<le> length ?c")
    case True
    then have "rotateSegment ?w3 wd3 = (None, w', wd')" using fin by simp
    from arg_cong [OF rotateSegment_None(1) [OF this], of writer] show ?thesis by simp
  next
    case False
    then show ?thesis using fin by simp
  qed
  have next_one: "\<exists>line c0 s0.
              marshalEntry \<lparr>Offset = offset w', Topic = topic2, Payload = payload2\<rparr> = Some line
            \<and> map_of (fs wd') (fname (currentSegment w')) = Some (File c0 s0)
            \<and> map_of (fs wd2) (fname (currentSegment w')) = Some (File (c0 @ line) (c0 @ line))"
    if "WriteLog topic2 payload2 w' wd' = (None, w2, wd2)" for topic2 payload2 w2 wd2
    using WriteLog_written [OF that] bufw' by simp
  have old: "map_of (fs wd') ?old = Some (File ?c ?c)"
  proof (cases "maxSegmentSize \<le> length ?c")
    case False
    then show ?thesis using fin fs3 by simp
  next
    case True
    then have rot: "rotateSegment ?w3 wd3 = (None, w', wd')" using fin by simp
    have "map_of (fs wd3) (fname (currentSegment ?w3)) = Some (File ?c ?c)"
      using fs3 by simp
    from rotateSegment_old_file [OF rot _ this] show ?thesis by simp
  qed
  have main: "if maxSegmentSize \<le> length ?c
        then calls wd' = calls wd @ ws @
               [CallSync ?old, CallStat ?old, CallSync ?old, CallClose ?old, CallOpenFile ?new]
           \<and> currentSegmentIndex w' = currentSegmentIndex w + 1
           \<and> currentSegment w' = \<lparr>fname = ?new, closed = False\<rparr>
           \<and> writer w' = NewWriterSize \<and> encoderErr w' = None
           \<and> (\<exists>c' s'. map_of (fs wd') ?new = Some (File c' s'))
        else calls wd' = calls wd @ ws @ [CallSync ?old, CallStat ?old]
           \<and> currentSegmentIndex w' = currentSegmentIndex w
           \<and> currentSegment w' = currentSegment w"
  proof (cases "maxSegmentSize \<le> length ?c")
    case False
    then show ?thesis using fin calls3 by simp
  next
    case True
    then have rot: "rotateSegment ?w3 wd3 = (None, w', wd')" using fin by simp
    note R = rotateSegment_None [OF rot]
    have ok3: "cache_ok (segmentNameCache wd3)" using assms(2) cache3 by simp
    have p: "fname (currentSegment w') = ?new" using R(5) [OF ok3] by simp
    have w'eq: "w' = ?w3\<lparr>currentSegment := \<lparr>fname = ?new, closed = False\<rparr>,
               writer := NewWriterSize, currentSegmentIndex := currentSegmentIndex w + 1,
               encoderErr := None, offset := offset ?w3 + 1\<rparr>"
      using R(1) p by simp
    have a: "currentSegmentIndex w' = currentSegmentIndex w + 1"
      by (subst w'eq) simp
    have b: "currentSegment w' = \<lparr>fname = ?new, closed = False\<rparr>"
      by (subst w'eq) simp
    have d: "writer w' = NewWriterSize" "encoderErr w' = None"
      by (subst w'eq, simp)+
    have e: "\<exists>c' s'. map_of (fs wd') ?new = Some (File c' s')"
      using R(4) p by simp
    have f: "calls wd' = calls wd @ ws @
               [CallSync ?old, CallStat ?old, CallSync ?old, CallClose ?old, CallOpenFile ?new]"
      using R(2) p calls3 by simp
    show ?thesis using True a b d e f by simp
  qed
  show ?thesis
  proof (rule exI [of _ ?c], rule exI [of _ ws], intro conjI allI impI)
    show "map_of (fs wd') ?old = Some (File ?c ?c)" by (rule old)
    show "writesTo ?old ws" by (rule ws)
    show "if maxSegmentSize \<le> length ?c
        then calls wd' = calls wd @ ws @
               [CallSync ?old, CallStat ?old, CallSync ?old, CallClose ?old, CallOpenFile ?new]
           \<and> currentSegmentIndex w' = currentSegmentIndex w + 1
           \<and> currentSegment w' = \<lparr>fname = ?new, closed = False\<rparr>
           \<and> writer w' = NewWriterSize \<and> encoderErr w' = None
           \<and> (\<exists>c' s'. map_of (fs wd') ?new = Some (File c' s'))
        else calls wd' = calls wd @ ws @ [CallSync ?old, CallStat ?old]
           \<and> currentSegmentIndex w' = currentSegmentIndex w
           \<and> currentSegment w' = currentSegment w" by (rule main)
  next
    fix topic2 payload2 w2 wd2
    assume "WriteLog topic2 payload2 w' wd' = (None, w2, wd2)"
    then show "\<exists>line c0 s0.
              marshalEntry \<lparr>Offset = offset w', Topic = topic2, Payload = payload2\<rparr> = Some line
            \<and> map_of (fs wd') (fname (currentSegment w')) = Some (File c0 s0)
            \<and> map_of (fs wd2) (fname (currentSegment w')) = Some (File (c0 @ line) (c0 @ line))"
      by (rule next_one)
  qed
qed

lemma cache_ok_opened: "cache_ok (segmentNameCache openedWorld)"
proof -
  have "cache_ok (segmentNameCache freshWorld)"
    by (simp add: freshWorld_def cache_ok_empty)
  from segmentFileName_ok(2) [OF this, of "''wal_data''" 1]
  show ?thesis
    by (simp add: segmentFileName_def Let_def freshWorld_def openedWorld_def fmt_d_examples
          segmentPrefix_def Join_def Clean_def cleanStep_def)
qed

theorem WriteLog_rotates_at_threshold_witness:
  "WriteLog ''orders'' bigPayload freshWAL openedWorld = (None, rotatedWAL, rotatedWorld)
   \<and> cache_ok (segmentNameCache openedWorld)
   \<and> map_of (fs rotatedWorld) (fname (currentSegment freshWAL)) = Some (File (bigLine 1) (bigLine 1))
   \<and> maxSegmentSize \<le> length (bigLine 1)
   \<and> currentSegmentIndex rotatedWAL = currentSegmentIndex freshWAL + 1
   \<and> currentSegment rotatedWAL = \<lparr>fname = ''wal_data/wal_2.log'', closed = False\<rparr>
   \<and> calls rotatedWorld = calls openedWorld @
        [CallWrite ''wal_data/wal_1.log'' (bigLine 1),
         CallSync ''wal_data/wal_1.log'', CallStat ''wal_data/wal_1.log'',
         CallSync ''wal_data/wal_1.log'', CallClose ''wal_data/wal_1.log'',
         CallOpenFile ''wal_data/wal_2.log'']
   \<and> fst (WriteLog ''orders'' smallPayload rotatedWAL rotatedWorld) = None
   \<and> map_of (fs (snd (snd (WriteLog ''orders'' smallPayload rotatedWAL rotatedWorld))))
        ''wal_data/wal_2.log'' = Some (File (orderLine 3) (orderLine 3))"
proof -
  note t = WriteLog_rotates_at_threshold [OF WriteLog_big cache_ok_opened]
  have a: "map_of (fs rotatedWorld) (fname (currentSegment freshWAL)) = Some (File (bigLine 1) (bigLine 1))"
    by (simp add: rotatedWorld_def freshWAL_def)
  have b: "maxSegmentSize \<le> length (bigLine 1)"
    by (simp add: bigLine_def maxSegmentSize_def)
  have d: "currentSegmentIndex rotatedWAL = currentSegmentIndex freshWAL + 1"
    using t a b by (auto split: if_splits)
  have e: "currentSegment rotatedWAL = \<lparr>fname = ''wal_data/wal_2.log'', closed = False\<rparr>"
    by (simp add: rotatedWAL_def)
  have f: "calls rotatedWorld = calls openedWorld @
        [CallWrite ''wal_data/wal_1.log'' (bigLine 1),
         CallSync ''wal_data/wal_1.log'', CallStat ''wal_data/wal_1.log'',
         CallSync ''wal_data/wal_1.log'', CallClose ''wal_data/wal_1.log'',
         CallOpenFile ''wal_data/wal_2.log'']"
    by (simp add: rotatedWorld_def)
  have g: "fst (WriteLog ''orders'' smallPayload rotatedWAL rotatedWorld) = None"
    by (simp add: WriteLog_after_rotation)
  have h: "map_of (fs (snd (snd (WriteLog ''orders'' smallPayload rotatedWAL rotatedWorld))))
        ''wal_data/wal_2.log'' = Some (File (orderLine 3) (orderLine 3))"
    by (simp add: WriteLog_after_rotation)
  show ?thesis
    by (intro conjI) (rule WriteLog_big cache_ok_opened a b d e f g h)+
qed



lemma newWriteAheadLOG_invariant:
  assumes "newWriteAheadLOG wd = (Inr w, wd')" and "cache_ok (segmentNameCache wd)"
  shows "fname (currentSegment w) = segmentPath (directory w) (currentSegmentIndex w)"
    and "cache_ok (segmentNameCache wd')"
proof -
  from newWriteAheadLOG_Inr [OF assms(1)] obtain wd1 wd2 wd3 wd4 n where
    mk: "os_MkdirAll walDir wd = (None, wd1)"
    and fl: "findLastSegemtIndex walDir wd1 = ((currentSegmentIndex w, None), wd2)"
    and sn: "segmentFileName walDir (currentSegmentIndex w) wd2 = (fname (currentSegment w), wd3)"
    and op: "os_OpenFile (fname (currentSegment w)) wd3 = (Inr (currentSegment w), wd4)"
    and st: "file_Stat (currentSegment w) wd4 = (Inr n, wd')"
    and d: "directory w = walDir"
    by (metis WAL.select_convs(1))
  have ok2: "cache_ok (segmentNameCache wd2)"
    using assms(2) os_MkdirAll_None(1) [OF mk] findLastSegemtIndex_effect(2) [OF fl] by simp
  from segmentFileName_ok(1,2) [OF ok2, of walDir "currentSegmentIndex w"] sn
  have p: "fname (currentSegment w) = segmentPath walDir (currentSegmentIndex w)"
    and ok3: "cache_ok (segmentNameCache wd3)" by simp_all
  show "fname (currentSegment w) = segmentPath (directory w) (currentSegmentIndex w)"
    using p d by simp
  show "cache_ok (segmentNameCache wd')"
    using ok3 os_OpenFile_Inr(3) [OF op] file_Stat_effect(2) [OF st] by simp
qed

lemma WriteLog_invariant:
  assumes "WriteLog topic payload w wd = (None, w', wd')" and "cache_ok (segmentNameCache wd)"
      and "fname (currentSegment w) = segmentPath (directory w) (currentSegmentIndex w)"
  shows "fname (currentSegment w') = segmentPath (directory w') (currentSegmentIndex w')"
    and "cache_ok (segmentNameCache wd')"
proof -
  let ?w3 = "w\<lparr>writer := NewWriterSize, offset := offset w + 1\<rparr>"
  from WriteLog_None [OF assms(1)] obtain line c s wd3 where
    cache3: "segmentNameCache wd3 = segmentNameCache wd"
    and fin: "if maxSegmentSize \<le> length (c @ buf (writer w) @ line)
        then rotateSegment ?w3 wd3 = (None, w', wd')
        else w' = ?w3 \<and> wd' = wd3"
    by blast
  have "fname (currentSegment w') = segmentPath (directory w') (currentSegmentIndex w')
        \<and> cache_ok (segmentNameCache wd')"
  proof (cases "maxSegmentSize \<le> length (c @ buf (writer w) @ line)")
    case False
    then show ?thesis using fin cache3 assms(2,3) by simp
  next
    case True
    then have rot: "rotateSegment ?w3 wd3 = (None, w', wd')" using fin by simp
    have ok3: "cache_ok (segmentNameCache wd3)" using assms(2) cache3 by simp
    from arg_cong [OF rotateSegment_None(1) [OF rot], of directory]
    have a: "directory w' = directory w" by simp
    from arg_cong [OF rotateSegment_None(1) [OF rot], of currentSegmentIndex]
    have b: "currentSegmentIndex w' = currentSegmentIndex w + 1" by simp
    show ?thesis using rotateSegment_None(5) [OF rot ok3] a b by simp
  qed
  then show "fname (currentSegment w') = segmentPath (directory w') (currentSegmentIndex w')"
    and "cache_ok (segmentNameCache wd')" by simp_all
qed


section \<open>What the handler reports\<close>




lemma WriteLog_null:
  "WriteLog ''default'' NilMap freshWAL openedWorld =
     (None, freshWAL\<lparr>offset := 2\<rparr>,
      openedWorld
        \<lparr>fs := [(''wal_data'', Dir), (''wal_data/wal_1.log'', File (nullLine 1) (nullLine 1))],
         calls := calls openedWorld @
                  [CallWrite ''wal_data/wal_1.log'' (nullLine 1),
                   CallSync ''wal_data/wal_1.log'', CallStat ''wal_data/wal_1.log'']\<rparr>)"
  by (simp add: engine_eval freshWAL_def openedWorld_def nullLine_def)




lemma handleWrite_null:
  "handleWrite freshWAL openedWorld postNull =
     (Created \<lparr>r_offset = 2, r_segment = 1, r_topic = ''default'', r_payload = NilMap,
               r_message = ''Log entry written successfully'',
               r_fileSize = ''wal_data/wal_1.log''\<rparr>,
      freshWAL\<lparr>offset := 2\<rparr>,
      openedWorld
        \<lparr>fs := [(''wal_data'', Dir), (''wal_data/wal_1.log'', File (nullLine 1) (nullLine 1))],
         calls := calls openedWorld @
                  [CallWrite ''wal_data/wal_1.log'' (nullLine 1),
                   CallSync ''wal_data/wal_1.log'', CallStat ''wal_data/wal_1.log'']\<rparr>)"
  using WriteLog_null
  by (simp add: handleWrite_def Decode_def query_Get_def postNull_def freshWAL_def)







section \<open>The HTTP endpoint\<close>

text \<open>
  Claim C9, as amended. A request whose method is not POST is answered 405. A POST whose
  body does not decode into a map, being malformed or a JSON value other than an object or
  \<^verbatim>\<open>null\<close>, is answered 400 with \<^verbatim>\<open>Invalid payload\<close>, and neither the engine nor the files
  change. A POST whose body is an object or \<^verbatim>\<open>null\<close> is appended with the topic of the query,
  or with \<^verbatim>\<open>default\<close> when the query has no topic or an empty one; when the append fails the
  answer is 500 with \<^verbatim>\<open>Failed to write log\<close>, and otherwise it is the created response with
  that topic and payload.
\<close>

theorem ServerHTTP_responses:
  "(reqMethod req \<noteq> ''POST'' \<longrightarrow>
      ServerHTTP w wd req = (HttpError ''Method not allowed'' 405, w, wd))
   \<and> (reqMethod req = ''POST'' \<and> (reqBody req = Malformed \<or> reqBody req = JSONOther) \<longrightarrow>
      ServerHTTP w wd req = (HttpError ''Invalid payload'' 400, w, wd))
   \<and> (reqMethod req = ''POST''
       \<and> (reqBody req = JSONNull \<and> payload = NilMap
            \<or> reqBody req = JSONObject s \<and> payload = MapValue s)
       \<and> topic = (case map_of (query req) ''topic'' of
                     None \<Rightarrow> ''default''
                   | Some t \<Rightarrow> if t = [] then ''default'' else t) \<longrightarrow>
      (case WriteLog topic payload w wd of
         (Some err, w1, wd1) \<Rightarrow>
           ServerHTTP w wd req = (HttpError ''Failed to write log'' 500, w1, wd1)
       | (None, w1, wd1) \<Rightarrow>
           ServerHTTP w wd req =
             (Created \<lparr>r_offset = offset w1, r_segment = currentSegmentIndex w1,
                       r_topic = topic, r_payload = payload,
                       r_message = ''Log entry written successfully'',
                       r_fileSize = fname (currentSegment w1)\<rparr>, w1, wd1)))"
  by (auto simp: ServerHTTP_def handleWrite_def Decode_def query_Get_def Let_def
           split: prod.splits option.splits)

theorem ServerHTTP_responses_witness:
  \<open>ServerHTTP freshWAL openedWorld (postOrder ''{"id":1}'') =
     (Created \<lparr>r_offset = 2, r_segment = 1, r_topic = ''orders'', r_payload = smallPayload,
               r_message = ''Log entry written successfully'',
               r_fileSize = ''wal_data/wal_1.log''\<rparr>,
      freshWAL\<lparr>offset := 2\<rparr>, appendedWorld)
   \<and> ServerHTTP freshWAL openedWorld
        \<lparr>reqMethod = ''POST'', query = [(''topic'', '''')], reqBody = JSONOther\<rparr> =
       (HttpError ''Invalid payload'' 400, freshWAL, openedWorld)
   \<and> ServerHTTP freshWAL openedWorld
        \<lparr>reqMethod = ''GET'', query = [], reqBody = Malformed\<rparr> =
       (HttpError ''Method not allowed'' 405, freshWAL, openedWorld)
   \<and> fst (ServerHTTP freshWAL (openedWorld\<lparr>faults := [True]\<rparr>) (postOrder ''{"id":1}'')) =
       HttpError ''Failed to write log'' 500\<close>
proof -
  have a: \<open>ServerHTTP freshWAL openedWorld (postOrder ''{"id":1}'') =
     (Created \<lparr>r_offset = 2, r_segment = 1, r_topic = ''orders'', r_payload = smallPayload,
               r_message = ''Log entry written successfully'',
               r_fileSize = ''wal_data/wal_1.log''\<rparr>,
      freshWAL\<lparr>offset := 2\<rparr>, appendedWorld)\<close>
    using ServerHTTP_responses [of \<open>postOrder ''{"id":1}''\<close> freshWAL openedWorld smallPayload
            \<open>''{"id":1}''\<close> "''orders''"] WriteLog_first
    by (simp add: postOrder_def smallPayload_def freshWAL_def)
  have b: "ServerHTTP freshWAL openedWorld
        \<lparr>reqMethod = ''POST'', query = [(''topic'', '''')], reqBody = JSONOther\<rparr> =
       (HttpError ''Invalid payload'' 400, freshWAL, openedWorld)"
    using ServerHTTP_responses
            [of "\<lparr>reqMethod = ''POST'', query = [(''topic'', '''')], reqBody = JSONOther\<rparr>"
                freshWAL openedWorld]
    by simp
  have c: "ServerHTTP freshWAL openedWorld
        \<lparr>reqMethod = ''GET'', query = [], reqBody = Malformed\<rparr> =
       (HttpError ''Method not allowed'' 405, freshWAL, openedWorld)"
    using ServerHTTP_responses
            [of "\<lparr>reqMethod = ''GET'', query = [], reqBody = Malformed\<rparr>" freshWAL openedWorld]
    by simp
  have d: \<open>fst (ServerHTTP freshWAL (openedWorld\<lparr>faults := [True]\<rparr>) (postOrder ''{"id":1}'')) =
       HttpError ''Failed to write log'' 500\<close>
    using ServerHTTP_responses [of \<open>postOrder ''{"id":1}''\<close> freshWAL
            "openedWorld\<lparr>faults := [True]\<rparr>" smallPayload \<open>''{"id":1}''\<close> "''orders''"]
          WriteLog_flush_fault
    by (simp add: postOrder_def smallPayload_def)
  show ?thesis by (intro conjI) (rule a b c d)+
qed

text \<open>
  The claim as first stated fails: the body \<^verbatim>\<open>null\<close> is not a JSON object, yet it is
  accepted, and a record with payload \<^verbatim>\<open>null\<close> and topic \<^verbatim>\<open>default\<close> is appended.
\<close>

theorem ServerHTTP_appends_null_body:
  "\<not> spec_isJSONObject (reqBody postNull)
   \<and> ServerHTTP freshWAL openedWorld postNull =
     (Created \<lparr>r_offset = 2, r_segment = 1, r_topic = ''default'', r_payload = NilMap,
               r_message = ''Log entry written successfully'',
               r_fileSize = ''wal_data/wal_1.log''\<rparr>,
      freshWAL\<lparr>offset := 2\<rparr>,
      openedWorld
        \<lparr>fs := [(''wal_data'', Dir), (''wal_data/wal_1.log'', File (nullLine 1) (nullLine 1))],
         calls := calls openedWorld @
                  [CallWrite ''wal_data/wal_1.log'' (nullLine 1),
                   CallSync ''wal_data/wal_1.log'', CallStat ''wal_data/wal_1.log'']\<rparr>)"
  using handleWrite_null
  by (simp add: ServerHTTP_def postNull_def spec_isJSONObject_def)

end
